theory Spec2Isabelle
  imports Complex_Main "HOL-Library.Word" "HOL-Library.AList"
begin

text \<open>
  A block storage engine in Python: \<open>VirtualDisk\<close> (fixed-size blocks over one backing
  file, block 0 a bitmap with one byte per block), \<open>Inode\<close> (name, size, block list)
  and \<open>FileSystem\<close> (a table of inodes saved in block 1; create, read, write, delete).
  The first part of this theory is the code, function by function; the second part states
  what well-formed means for a device and builds small engines to run; the rest proves
  what the operations do.
\<close>

section \<open>Data model\<close>

text \<open>
  The backing file of a \<open>VirtualDisk\<close> is a sequence of bytes. Block numbers are Python
  integers (the device checks \<open>0 <= block_number\<close> itself, and a bytearray accepts a
  negative index), so they are \<open>int\<close>. Sizes, lengths and byte offsets are \<open>nat\<close>:
  \<open>inode.size\<close> starts at 0 and is only ever replaced by a maximum, and an offset is a
  position in a file.
\<close>

type_synonym byte = "8 word"

text \<open>
  Every \<open>raise\<close> of the source is a constructor. \<open>OutOfRange\<close> and \<open>OversizedWrite\<close>
  are the two \<open>ValueError\<close>s of \<open>read_block\<close>/\<open>write_block\<close>, told apart by their
  message. \<open>NameError\<close> is what \<open>raise DiskFullError(...)\<close> evaluates to: no class
  \<open>DiskFullError\<close> is defined or imported anywhere. \<open>DecodeError\<close> stands for any
  exception of \<open>bytes.decode\<close>, \<open>json.loads\<close> or \<open>Inode.from_dict\<close>.
\<close>

datatype error =
    OutOfRange int
  | OversizedWrite nat
  | IndexError
  | FileNotFoundError string
  | NameError string
  | ZeroDivisionError
  | DecodeError

record VirtualDisk =
  disk_file :: "byte list"
  total_size_bytes :: nat
  block_size :: nat
  total_blocks :: nat
  bitmap_blocks :: nat

record Inode =
  inode_name :: string
  inode_size :: nat
  inode_blocks :: "int list"
  created_time :: real
  inode_type :: string

text \<open>
  \<open>self.inodes\<close> is a Python dict (insertion ordered): an association list with
  \<open>map_of\<close> for lookup, \<open>AList.update\<close> for \<open>d[k] = v\<close> and \<open>AList.delete\<close> for
  \<open>del d[k]\<close>.
\<close>

record FileSystem =
  disk :: VirtualDisk
  inode_table_block :: int
  inodes :: "(string \<times> Inode) list"

section \<open>Python sequences and files\<close>

definition py_getitem :: "'a list \<Rightarrow> int \<Rightarrow> error + 'a" where
  "py_getitem xs i =
     (if 0 \<le> i \<and> i < int (length xs) then Inr (xs ! nat i)
      else if - int (length xs) \<le> i \<and> i < 0 then Inr (xs ! nat (int (length xs) + i))
      else Inl IndexError)"

definition py_setitem :: "'a list \<Rightarrow> int \<Rightarrow> 'a \<Rightarrow> error + 'a list" where
  "py_setitem xs i v =
     (if 0 \<le> i \<and> i < int (length xs) then Inr (xs[nat i := v])
      else if - int (length xs) \<le> i \<and> i < 0 then Inr (xs[nat (int (length xs) + i) := v])
      else Inl IndexError)"

text \<open>\<open>xs[a:b] = ys\<close> for \<open>a \<le> b\<close>: the slice is replaced, the bounds clamp to the length.\<close>

definition py_setslice :: "'a list \<Rightarrow> nat \<Rightarrow> nat \<Rightarrow> 'a list \<Rightarrow> 'a list" where
  "py_setslice xs a b ys = take a xs @ ys @ drop (max a b) xs"

text \<open>\<open>f.seek(pos); f.read(n)\<close>: fewer than \<open>n\<close> bytes when the file ends first.\<close>

definition file_read :: "byte list \<Rightarrow> nat \<Rightarrow> nat \<Rightarrow> byte list" where
  "file_read f pos n = take n (drop pos f)"

text \<open>\<open>f.seek(pos); f.write(data)\<close> in mode \<open>rb+\<close>: a gap past the end is zero-filled.\<close>

definition file_write :: "byte list \<Rightarrow> nat \<Rightarrow> byte list \<Rightarrow> byte list" where
  "file_write f pos data =
     take pos f @ replicate (pos - length f) 0 @ data @ drop (pos + length data) f"

text \<open>\<open>s.rstrip('\0')\<close> on the decoded block: NUL is the byte 0 in UTF-8.\<close>

definition rstrip0 :: "byte list \<Rightarrow> byte list" where
  "rstrip0 bs = rev (dropWhile (\<lambda>b. b = 0) (rev bs))"

section \<open>VirtualDisk\<close>

definition read_block :: "VirtualDisk \<Rightarrow> int \<Rightarrow> error + byte list" where
  "read_block d block_number =
     (if \<not> (0 \<le> block_number \<and> block_number < int (total_blocks d))
      then Inl (OutOfRange block_number)
      else Inr (file_read (disk_file d) (nat block_number * block_size d) (block_size d)))"

text \<open>A mutator returns the disk after the call; when it raises, nothing was written.\<close>

definition write_block :: "VirtualDisk \<Rightarrow> int \<Rightarrow> byte list \<Rightarrow> error + VirtualDisk" where
  "write_block d block_number data =
     (if \<not> (0 \<le> block_number \<and> block_number < int (total_blocks d))
      then Inl (OutOfRange block_number)
      else if length data < block_size d
      then Inr (d\<lparr>disk_file := file_write (disk_file d) (nat block_number * block_size d)
                    (data @ replicate (block_size d - length data) 0)\<rparr>)
      else if length data > block_size d
      then Inl (OversizedWrite (length data))
      else Inr (d\<lparr>disk_file := file_write (disk_file d) (nat block_number * block_size d) data\<rparr>))"

definition initializeBitmap :: "VirtualDisk \<Rightarrow> error + VirtualDisk" where
  "initializeBitmap d =
     (case py_setitem (replicate (block_size d) (0 :: byte)) 0 1 of
        Inl e \<Rightarrow> Inl e
      | Inr bitmap \<Rightarrow> write_block d 0 bitmap)"

text \<open>
  \<open>VirtualDisk(disk_path, total_size_bytes, block_size_bytes)\<close>. The first argument is the
  content of the file at \<open>disk_path\<close>, \<open>None\<close> when there is no such file.
\<close>

definition VirtualDisk_init :: "byte list option \<Rightarrow> nat \<Rightarrow> nat \<Rightarrow> error + VirtualDisk" where
  "VirtualDisk_init existing total_size block_size_bytes =
     (if block_size_bytes = 0 then Inl ZeroDivisionError
      else initializeBitmap
        \<lparr>disk_file = (case existing of Some content \<Rightarrow> content | None \<Rightarrow> replicate total_size 0),
         total_size_bytes = total_size,
         block_size = block_size_bytes,
         total_blocks = total_size div block_size_bytes,
         bitmap_blocks = 1\<rparr>)"

text \<open>The loop of \<open>get_free_block\<close> over \<open>range(1, total_blocks)\<close>.\<close>

fun first_free :: "byte list \<Rightarrow> nat list \<Rightarrow> error + int option" where
  "first_free bitmap [] = Inr None"
| "first_free bitmap (blockNum # rest) =
     (case py_getitem bitmap (int blockNum) of
        Inl e \<Rightarrow> Inl e
      | Inr b \<Rightarrow> if b = 0 then Inr (Some (int blockNum)) else first_free bitmap rest)"

definition get_free_block :: "VirtualDisk \<Rightarrow> error + int option" where
  "get_free_block d =
     (case read_block d 0 of
        Inl e \<Rightarrow> Inl e
      | Inr bitmap \<Rightarrow> first_free bitmap [1 ..< total_blocks d])"

definition mark_block_free :: "VirtualDisk \<Rightarrow> int \<Rightarrow> error + VirtualDisk" where
  "mark_block_free d block_number =
     (case read_block d 0 of
        Inl e \<Rightarrow> Inl e
      | Inr bitmap \<Rightarrow>
          (case py_setitem bitmap block_number 0 of
             Inl e \<Rightarrow> Inl e
           | Inr bitmap' \<Rightarrow> write_block d 0 bitmap'))"

definition mark_block_used :: "VirtualDisk \<Rightarrow> int \<Rightarrow> error + VirtualDisk" where
  "mark_block_used d block_number =
     (case read_block d 0 of
        Inl e \<Rightarrow> Inl e
      | Inr bitmap \<Rightarrow>
          (case py_setitem bitmap block_number 1 of
             Inl e \<Rightarrow> Inl e
           | Inr bitmap' \<Rightarrow> write_block d 0 bitmap'))"

definition is_block_used :: "VirtualDisk \<Rightarrow> int \<Rightarrow> error + bool" where
  "is_block_used d block_number =
     (case read_block d 0 of
        Inl e \<Rightarrow> Inl e
      | Inr bitmap \<Rightarrow>
          (case py_getitem bitmap block_number of
             Inl e \<Rightarrow> Inl e
           | Inr b \<Rightarrow> Inr (b = 1)))"

definition delete_block :: "VirtualDisk \<Rightarrow> int \<Rightarrow> error + VirtualDisk" where
  "delete_block d block_number =
     (if \<not> (0 \<le> block_number \<and> block_number < int (total_blocks d))
      then Inl (OutOfRange block_number)
      else mark_block_free d block_number)"

section \<open>FileSystem\<close>

text \<open>
  \<open>json.dumps(inode_dict).encode()\<close> and its inverse (\<open>decode\<close>, \<open>json.loads\<close>,
  \<open>Inode.from_dict\<close>) belong to Python's library: the operations take them as the
  parameters \<open>dumps\<close> and \<open>loads\<close>. \<open>time.time()\<close> is the parameter \<open>now\<close>.
  An operation of the engine returns its result, or the exception that escapes it, and
  the engine as the call leaves it.
\<close>

definition save_inode_table ::
  "((string \<times> Inode) list \<Rightarrow> byte list) \<Rightarrow> FileSystem \<Rightarrow> (error + unit) \<times> FileSystem" where
  "save_inode_table dumps fs =
     (case write_block (disk fs) (inode_table_block fs) (dumps (inodes fs)) of
        Inl e \<Rightarrow> (Inl e, fs)
      | Inr d1 \<Rightarrow>
          (case mark_block_used d1 1 of
             Inl e \<Rightarrow> (Inl e, fs\<lparr>disk := d1\<rparr>)
           | Inr d2 \<Rightarrow> (Inr (), fs\<lparr>disk := d2\<rparr>)))"

text \<open>
  The \<open>try\<close> body of \<open>load_inode_table\<close> raises when the block cannot be read or
  decoded; \<open>except Exception\<close> then saves the table. A block of NUL bytes decodes to
  the empty string, which is falsy: nothing is loaded and nothing is saved.
\<close>

definition load_inode_table ::
  "(byte list \<Rightarrow> error + (string \<times> Inode) list) \<Rightarrow> ((string \<times> Inode) list \<Rightarrow> byte list)
     \<Rightarrow> FileSystem \<Rightarrow> (error + unit) \<times> FileSystem" where
  "load_inode_table loads dumps fs =
     (case read_block (disk fs) (inode_table_block fs) of
        Inl e \<Rightarrow> save_inode_table dumps fs
      | Inr data \<Rightarrow>
          if rstrip0 data = [] then (Inr (), fs)
          else (case loads (rstrip0 data) of
                  Inl e \<Rightarrow> save_inode_table dumps fs
                | Inr table \<Rightarrow> (Inr (), fs\<lparr>inodes := table\<rparr>)))"

text \<open>\<open>FileSystem(disk_path)\<close>: the device is built with its default geometry.\<close>

definition FileSystem_init ::
  "(byte list \<Rightarrow> error + (string \<times> Inode) list) \<Rightarrow> ((string \<times> Inode) list \<Rightarrow> byte list)
     \<Rightarrow> byte list option \<Rightarrow> error + FileSystem" where
  "FileSystem_init loads dumps existing =
     (case VirtualDisk_init existing (1024 * 1024) 4096 of
        Inl e \<Rightarrow> Inl e
      | Inr d \<Rightarrow>
          (case load_inode_table loads dumps \<lparr>disk = d, inode_table_block = 1, inodes = []\<rparr> of
             (Inl e, fs) \<Rightarrow> Inl e
           | (Inr u, fs) \<Rightarrow> Inr fs))"

definition RESERVED_BLOCKS :: "(int \<times> string) list" where
  "RESERVED_BLOCKS = [(0, ''bitmap''), (1, ''inode_table'')]"

definition FIRST_DATA_BLOCK :: int where
  "FIRST_DATA_BLOCK = Max (set (map fst RESERVED_BLOCKS)) + 1"

definition new_Inode :: "string \<Rightarrow> real \<Rightarrow> Inode" where
  "new_Inode name now =
     \<lparr>inode_name = name, inode_size = 0, inode_blocks = [], created_time = now,
      inode_type = ''file''\<rparr>"

definition create_file ::
  "((string \<times> Inode) list \<Rightarrow> byte list) \<Rightarrow> real \<Rightarrow> string \<Rightarrow> FileSystem
     \<Rightarrow> (error + bool) \<times> FileSystem" where
  "create_file dumps now name fs =
     (if map_of (inodes fs) name \<noteq> None then (Inr False, fs)
      else
        (case save_inode_table dumps
                (fs\<lparr>inodes := AList.update name (new_Inode name now) (inodes fs)\<rparr>) of
           (Inl e, fs') \<Rightarrow> (Inl e, fs')
         | (Inr u, fs') \<Rightarrow> (Inr True, fs')))"

text \<open>
  The loop of \<open>read_file\<close> over \<open>inode.blocks\<close>; \<open>data\<close> is the bytearray so far.
  It never grows past \<open>inode.size\<close>, so \<open>remaining\<close> is never negative and
  \<open>block_data[:remaining]\<close> is a prefix.
\<close>

fun read_blocks :: "VirtualDisk \<Rightarrow> nat \<Rightarrow> int list \<Rightarrow> byte list \<Rightarrow> error + byte list" where
  "read_blocks d sz [] data = Inr data"
| "read_blocks d sz (physicalBlock # rest) data =
     (case read_block d physicalBlock of
        Inl e \<Rightarrow> Inl e
      | Inr block_data \<Rightarrow>
          if length data + block_size d > sz
          then read_blocks d sz rest (data @ take (sz - length data) block_data)
          else read_blocks d sz rest (data @ block_data))"

definition read_file :: "string \<Rightarrow> FileSystem \<Rightarrow> error + byte list option" where
  "read_file name fs =
     (case map_of (inodes fs) name of
        None \<Rightarrow> Inr None
      | Some inode \<Rightarrow>
          if inode_blocks inode = [] then Inr (Some [])
          else (case read_blocks (disk fs) (inode_size inode) (inode_blocks inode) [] of
                  Inl e \<Rightarrow> Inl e
                | Inr data \<Rightarrow> Inr (Some data)))"

text \<open>The loop of \<open>delete_file\<close> over \<open>inode.blocks\<close>.\<close>

fun free_blocks :: "VirtualDisk \<Rightarrow> int list \<Rightarrow> (error + unit) \<times> VirtualDisk" where
  "free_blocks d [] = (Inr (), d)"
| "free_blocks d (block # rest) =
     (case mark_block_free d block of
        Inl e \<Rightarrow> (Inl e, d)
      | Inr d' \<Rightarrow> free_blocks d' rest)"

definition delete_file ::
  "((string \<times> Inode) list \<Rightarrow> byte list) \<Rightarrow> string \<Rightarrow> FileSystem
     \<Rightarrow> (error + bool) \<times> FileSystem" where
  "delete_file dumps name fs =
     (case map_of (inodes fs) name of
        None \<Rightarrow> (Inr False, fs)
      | Some inode \<Rightarrow>
          (case free_blocks (disk fs) (inode_blocks inode) of
             (Inl e, d') \<Rightarrow> (Inl e, fs\<lparr>disk := d'\<rparr>)
           | (Inr u, d') \<Rightarrow>
               (case save_inode_table dumps
                       (fs\<lparr>disk := d', inodes := AList.delete name (inodes fs)\<rparr>) of
                  (Inl e, fs') \<Rightarrow> (Inl e, fs')
                | (Inr u', fs') \<Rightarrow> (Inr True, fs'))))"

definition list_files :: "FileSystem \<Rightarrow> (string \<times> nat \<times> int list \<times> real) list" where
  "list_files fs =
     map (\<lambda>(name, inode). (name, inode_size inode, inode_blocks inode, created_time inode))
       (inodes fs)"

definition get_inode :: "FileSystem \<Rightarrow> string \<Rightarrow> error + Inode" where
  "get_inode fs name =
     (case map_of (inodes fs) name of
        None \<Rightarrow> Inl (FileNotFoundError name)
      | Some inode \<Rightarrow> Inr inode)"

text \<open>
  \<open>set(range(start_block, end_block + 1))\<close>, as the list of its elements in ascending
  order. CPython iterates a set of small integers in the order of their hash slots: that
  is the ascending order for a range that starts at 0, and can differ otherwise (\<open>{7, 8}\<close>
  is iterated as 8, 7). The order decides only which free physical block goes to which
  new logical block; which logical blocks are allocated, how many, and whether the
  allocation succeeds do not depend on it. The theorems below that speak of block
  contents are about writes at offset 0.
\<close>

definition calculate_blocks_needed :: "FileSystem \<Rightarrow> nat \<Rightarrow> nat \<Rightarrow> error + nat list" where
  "calculate_blocks_needed fs offset data_length =
     (if block_size (disk fs) = 0 then Inl ZeroDivisionError
      else Inr [offset div block_size (disk fs) ..<
                (offset + data_length + block_size (disk fs) - 1) div block_size (disk fs) + 1])"

definition allocate_new_block :: "FileSystem \<Rightarrow> error + int" where
  "allocate_new_block fs =
     (case get_free_block (disk fs) of
        Inl e \<Rightarrow> Inl e
      | Inr None \<Rightarrow> Inl (NameError ''DiskFullError'')
      | Inr (Some block) \<Rightarrow> Inr block)"

text \<open>
  The loop of \<open>_ensure_blocks_allocated\<close>. \<open>_allocate_new_block\<close> returns a block or
  raises, so the test \<open>new_block is None\<close> of the source never holds.
\<close>

fun allocate_missing ::
  "FileSystem \<Rightarrow> (nat \<times> int) list \<Rightarrow> nat list \<Rightarrow> (error + (nat \<times> int) list) \<times> FileSystem" where
  "allocate_missing fs block_mapping [] = (Inr block_mapping, fs)"
| "allocate_missing fs block_mapping (logical_block # rest) =
     (if map_of block_mapping logical_block \<noteq> None then allocate_missing fs block_mapping rest
      else
        (case allocate_new_block fs of
           Inl e \<Rightarrow> (Inl e, fs)
         | Inr new_block \<Rightarrow>
             (case mark_block_used (disk fs) new_block of
                Inl e \<Rightarrow> (Inl e, fs)
              | Inr d' \<Rightarrow>
                  allocate_missing (fs\<lparr>disk := d'\<rparr>)
                    (AList.update logical_block new_block block_mapping) rest)))"

definition ensure_blocks_allocated ::
  "Inode \<Rightarrow> nat list \<Rightarrow> FileSystem \<Rightarrow> (error + (nat \<times> int) list) \<times> FileSystem" where
  "ensure_blocks_allocated inode blocks_needed fs =
     allocate_missing fs (zip [0 ..< length (inode_blocks inode)] (inode_blocks inode))
       blocks_needed"

text \<open>The \<open>while\<close> loop of \<open>_write_data_to_blocks\<close>.\<close>

function write_loop ::
  "VirtualDisk \<Rightarrow> (nat \<times> int) list \<Rightarrow> byte list \<Rightarrow> nat \<Rightarrow> nat \<Rightarrow> (error + unit) \<times> VirtualDisk" where
  "write_loop d block_mapping data current_offset data_offset =
     (if data_offset < length data then
        (if block_size d = 0 then (Inl ZeroDivisionError, d)
         else
           (case map_of block_mapping (current_offset div block_size d) of
              None \<Rightarrow> (Inr (), d)
            | Some physical_block \<Rightarrow>
                (case read_block d physical_block of
                   Inl e \<Rightarrow> (Inl e, d)
                 | Inr current_block \<Rightarrow>
                     (case write_block d physical_block
                             (py_setslice current_block (current_offset mod block_size d)
                                (current_offset mod block_size d +
                                   min (block_size d - current_offset mod block_size d)
                                       (length data - data_offset))
                                (take (min (block_size d - current_offset mod block_size d)
                                           (length data - data_offset))
                                   (drop data_offset data))) of
                        Inl e \<Rightarrow> (Inl e, d)
                      | Inr d' \<Rightarrow>
                          write_loop d' block_mapping data
                            (current_offset +
                               min (block_size d - current_offset mod block_size d)
                                   (length data - data_offset))
                            (data_offset +
                               min (block_size d - current_offset mod block_size d)
                                   (length data - data_offset))))))
      else (Inr (), d))"
  by pat_completeness auto
termination
proof (relation "measure (\<lambda>(d, block_mapping, data, current_offset, data_offset).
                    length data - data_offset)")
  fix d :: VirtualDisk and block_mapping :: "(nat \<times> int) list" and data :: "byte list"
    and current_offset data_offset :: nat
  assume lt: "data_offset < length data" and nz: "block_size d \<noteq> 0"
  have "current_offset mod block_size d < block_size d"
    using nz by simp
  then have "0 < min (block_size d - current_offset mod block_size d)
                     (length data - data_offset)"
    using lt by simp
  then show "((d', block_mapping, data,
               current_offset + min (block_size d - current_offset mod block_size d)
                                    (length data - data_offset),
               data_offset + min (block_size d - current_offset mod block_size d)
                                 (length data - data_offset)),
              (d, block_mapping, data, current_offset, data_offset))
             \<in> measure (\<lambda>(d, block_mapping, data, current_offset, data_offset).
                    length data - data_offset)" for d'
    using lt by simp
qed simp

definition write_data_to_blocks ::
  "byte list \<Rightarrow> nat \<Rightarrow> (nat \<times> int) list \<Rightarrow> FileSystem \<Rightarrow> (error + unit) \<times> FileSystem" where
  "write_data_to_blocks data offset block_mapping fs =
     (case write_loop (disk fs) block_mapping data offset 0 of
        (r, d') \<Rightarrow> (r, fs\<lparr>disk := d'\<rparr>))"

text \<open>
  \<open>_update_inode\<close> mutates the inode object, which is the table's entry for \<open>name\<close>.
  Every key of \<open>sorted(block_mapping.keys())\<close> is in the mapping.
\<close>

definition update_inode ::
  "((string \<times> Inode) list \<Rightarrow> byte list) \<Rightarrow> string \<Rightarrow> Inode \<Rightarrow> nat \<Rightarrow> nat \<Rightarrow> (nat \<times> int) list
     \<Rightarrow> FileSystem \<Rightarrow> (error + unit) \<times> FileSystem" where
  "update_inode dumps name inode offset data_length block_mapping fs =
     save_inode_table dumps
       (fs\<lparr>inodes := AList.update name
              (inode\<lparr>inode_blocks := map (\<lambda>i. the (map_of block_mapping i))
                                         (sort (map fst block_mapping)),
                     inode_size := max (inode_size inode) (offset + data_length)\<rparr>)
              (inodes fs)\<rparr>)"

text \<open>The \<open>try\<close> body of \<open>write_file\<close>, and \<open>write_file\<close> with its \<open>except\<close> clause.\<close>

definition write_file_body ::
  "((string \<times> Inode) list \<Rightarrow> byte list) \<Rightarrow> string \<Rightarrow> byte list \<Rightarrow> nat \<Rightarrow> FileSystem
     \<Rightarrow> (error + bool) \<times> FileSystem" where
  "write_file_body dumps name data offset fs =
     (case get_inode fs name of
        Inl e \<Rightarrow> (Inl e, fs)
      | Inr inode \<Rightarrow>
          (case calculate_blocks_needed fs offset (length data) of
             Inl e \<Rightarrow> (Inl e, fs)
           | Inr blocks_needed \<Rightarrow>
               (case ensure_blocks_allocated inode blocks_needed fs of
                  (Inl e, fs1) \<Rightarrow> (Inl e, fs1)
                | (Inr block_mapping, fs1) \<Rightarrow>
                    (case write_data_to_blocks data offset block_mapping fs1 of
                       (Inl e, fs2) \<Rightarrow> (Inl e, fs2)
                     | (Inr u, fs2) \<Rightarrow>
                         (case update_inode dumps name inode offset (length data)
                                 block_mapping fs2 of
                            (Inl e, fs3) \<Rightarrow> (Inl e, fs3)
                          | (Inr u', fs3) \<Rightarrow> (Inr True, fs3))))))"

definition write_file ::
  "((string \<times> Inode) list \<Rightarrow> byte list) \<Rightarrow> string \<Rightarrow> byte list \<Rightarrow> nat \<Rightarrow> FileSystem
     \<Rightarrow> (error + bool) \<times> FileSystem" where
  "write_file dumps name data offset fs =
     (case write_file_body dumps name data offset fs of
        (Inl (FileNotFoundError msg), fs') \<Rightarrow> (Inr False, fs')
      | (Inl e, fs') \<Rightarrow> (Inl e, fs')
      | (Inr r, fs') \<Rightarrow> (Inr r, fs'))"

section \<open>Well-formed devices\<close>

text \<open>
  The device that \<open>VirtualDisk(path)\<close> builds over a new file, or over a file of
  \<open>total_size_bytes\<close> bytes: a positive block size and a file of the full size, so that
  every block in range is \<open>block_size\<close> long. \<open>block_at d n\<close> is the content of block
  \<open>n\<close>; block 0 is the bitmap.
\<close>

definition disk_ok :: "VirtualDisk \<Rightarrow> bool" where
  "disk_ok d \<longleftrightarrow>
     0 < block_size d \<and> total_blocks d = total_size_bytes d div block_size d \<and>
     length (disk_file d) = total_size_bytes d"

definition fs_ok :: "FileSystem \<Rightarrow> bool" where
  "fs_ok fs \<longleftrightarrow> disk_ok (disk fs) \<and> inode_table_block fs = 1"

definition block_at :: "VirtualDisk \<Rightarrow> nat \<Rightarrow> byte list" where
  "block_at d n = file_read (disk_file d) (n * block_size d) (block_size d)"

definition same_geometry :: "VirtualDisk \<Rightarrow> VirtualDisk \<Rightarrow> bool" where
  "same_geometry d d' \<longleftrightarrow>
     block_size d' = block_size d \<and> total_blocks d' = total_blocks d \<and>
     total_size_bytes d' = total_size_bytes d \<and> bitmap_blocks d' = bitmap_blocks d"

text \<open>The blocks \<open>get_free_block\<close> can still return: bytes 1 .. total_blocks - 1 that are 0.\<close>

definition free_block_count :: "VirtualDisk \<Rightarrow> nat" where
  "free_block_count d =
     length (filter (\<lambda>k. k < block_size d \<and> block_at d 0 ! k = 0) [1 ..< total_blocks d])"

section \<open>Example engines\<close>

text \<open>
  Small devices on which the operations are run: \<open>VirtualDisk(path, 64, 8)\<close> and
  \<open>VirtualDisk(path, 32, 8)\<close> over a new file, an engine on each, and two serialisers,
  one byte and nine bytes per table entry.
\<close>

definition example_dumps :: "(string \<times> Inode) list \<Rightarrow> byte list" where
  "example_dumps table = replicate (length table) 1"

definition crowded_dumps :: "(string \<times> Inode) list \<Rightarrow> byte list" where
  "crowded_dumps table = replicate (9 * length table) 1"

definition example_disk :: VirtualDisk where
  "example_disk =
     \<lparr>disk_file = 1 # replicate 63 0, total_size_bytes = 64, block_size = 8,
      total_blocks = 8, bitmap_blocks = 1\<rparr>"

definition tiny_disk :: VirtualDisk where
  "tiny_disk =
     \<lparr>disk_file = 1 # replicate 31 0, total_size_bytes = 32, block_size = 8,
      total_blocks = 4, bitmap_blocks = 1\<rparr>"

definition example_fs :: FileSystem where
  "example_fs = \<lparr>disk = example_disk, inode_table_block = 1, inodes = []\<rparr>"

text \<open>The engine after \<open>create_file('a')\<close>.\<close>

definition empty_file_fs :: FileSystem where
  "empty_file_fs = snd (create_file example_dumps 0 ''a'' example_fs)"

text \<open>An engine whose table (two entries) does not fit in a block with \<open>crowded_dumps\<close>.\<close>

definition crowded_fs :: FileSystem where
  "crowded_fs =
     \<lparr>disk = disk empty_file_fs, inode_table_block = 1,
      inodes = [(''a'', new_Inode ''a'' 0), (''b'', new_Inode ''b'' 0)]\<rparr>"

text \<open>
  The four-block engine after \<open>create_file('b')\<close>, \<open>write_file('b', b'\x01\x02\x03')\<close>,
  which takes both data blocks, and \<open>create_file('a')\<close>.
\<close>

definition tiny_full_fs :: FileSystem where
  "tiny_full_fs =
     snd (create_file example_dumps 0 ''a''
       (snd (write_file example_dumps ''b'' [1, 2, 3] 0
         (snd (create_file example_dumps 0 ''b''
           \<lparr>disk = tiny_disk, inode_table_block = 1, inodes = []\<rparr>)))))"

text \<open>The device and the engine that \<open>FileSystem(path)\<close> builds over a new file.\<close>

definition fresh_disk :: VirtualDisk where
  "fresh_disk =
     \<lparr>disk_file = (replicate 4096 0)[0 := 1] @ replicate (1024 * 1024 - 4096) 0,
      total_size_bytes = 1024 * 1024, block_size = 4096,
      total_blocks = 1024 * 1024 div 4096, bitmap_blocks = 1\<rparr>"

definition fresh_fs :: FileSystem where
  "fresh_fs = \<lparr>disk = fresh_disk, inode_table_block = 1, inodes = []\<rparr>"

text \<open>
  A full device of the default geometry: bytes 0 .. 255 of the bitmap are 1. The file
  \<open>big\<close> holds the data blocks 2 .. 255, the file \<open>a\<close> holds none.
\<close>

definition full_disk :: VirtualDisk where
  "full_disk =
     \<lparr>disk_file = replicate 256 1 @ replicate (1024 * 1024 - 256) 0,
      total_size_bytes = 1024 * 1024, block_size = 4096, total_blocks = 256,
      bitmap_blocks = 1\<rparr>"

definition full_fs :: FileSystem where
  "full_fs =
     \<lparr>disk = full_disk, inode_table_block = 1,
      inodes = [(''big'', \<lparr>inode_name = ''big'', inode_size = 253 * 4096,
                           inode_blocks = map int [2 ..< 256], created_time = 0,
                           inode_type = ''file''\<rparr>),
                (''a'', new_Inode ''a'' 0)]\<rparr>"

section \<open>The block device\<close>

lemma length_file_write:
  "pos + length data \<le> length f \<Longrightarrow> length (file_write f pos data) = length f"
  by (simp add: file_write_def)

lemma file_read_write_same:
  "pos + length data \<le> length f \<Longrightarrow> file_read (file_write f pos data) pos (length data) = data"
  by (simp add: file_write_def file_read_def)

lemma file_read_write_before:
  "p + n \<le> pos \<Longrightarrow> pos \<le> length f \<Longrightarrow> file_read (file_write f pos data) p n = file_read f p n"
proof -
  assume a: "p + n \<le> pos" and b: "pos \<le> length f"
  have "take n (drop p (take pos f @ r)) = take n (drop p f)" for r
  proof -
    have "take n (drop p (take pos f @ r)) = take n (drop p (take pos f))"
      using a b by simp
    also have "\<dots> = take n (take (pos - p) (drop p f))"
      by (simp add: drop_take)
    also have "\<dots> = take n (drop p f)"
      using a by (simp add: min_def)
    finally show ?thesis .
  qed
  then show ?thesis
    unfolding file_write_def file_read_def by blast
qed

lemma file_read_write_after:
  "pos + length data \<le> p \<Longrightarrow> pos \<le> length f
     \<Longrightarrow> file_read (file_write f pos data) p n = file_read f p n"
  by (simp add: file_write_def file_read_def min_def)

lemma block_end_le:
  assumes "disk_ok d" "n < total_blocks d"
  shows "n * block_size d + block_size d \<le> length (disk_file d)"
proof -
  have "Suc n * block_size d \<le> total_blocks d * block_size d"
    using assms(2) by (intro mult_le_mono1) simp
  also have "\<dots> \<le> total_size_bytes d"
    using assms(1) by (simp add: disk_ok_def)
  finally show ?thesis using assms(1) by (simp add: disk_ok_def)
qed

lemma length_block_at:
  "disk_ok d \<Longrightarrow> n < total_blocks d \<Longrightarrow> length (block_at d n) = block_size d"
  using block_end_le [of d n] by (simp add: block_at_def file_read_def)

lemma read_block_eq:
  "0 \<le> n \<Longrightarrow> n < int (total_blocks d) \<Longrightarrow> read_block d n = Inr (block_at d (nat n))"
  by (simp add: read_block_def block_at_def)

lemma read_block_out:
  "\<not> (0 \<le> n \<and> n < int (total_blocks d)) \<Longrightarrow> read_block d n = Inl (OutOfRange n)"
  by (simp add: read_block_def)

lemma write_block_eq:
  "0 \<le> n \<Longrightarrow> n < int (total_blocks d) \<Longrightarrow> length data \<le> block_size d \<Longrightarrow>
     write_block d n data =
       Inr (d\<lparr>disk_file := file_write (disk_file d) (nat n * block_size d)
                 (data @ replicate (block_size d - length data) 0)\<rparr>)"
  by (simp add: write_block_def)

lemma write_block_out:
  "\<not> (0 \<le> n \<and> n < int (total_blocks d)) \<Longrightarrow> write_block d n data = Inl (OutOfRange n)"
  by (simp add: write_block_def)

lemma write_block_geometry:
  "write_block d n data = Inr d' \<Longrightarrow> same_geometry d d'"
  by (auto simp: write_block_def same_geometry_def split: if_splits)

lemma write_block_effect:
  assumes ok: "disk_ok d" and w: "write_block d n data = Inr d'"
  shows "disk_ok d'"
    and "block_at d' (nat n) = data @ replicate (block_size d - length data) 0"
    and "k \<noteq> nat n \<Longrightarrow> block_at d' k = block_at d k"
proof -
  from w have rng: "0 \<le> n" "n < int (total_blocks d)" and len: "length data \<le> block_size d"
    by (auto simp: write_block_def split: if_splits)
  let ?pad = "data @ replicate (block_size d - length data) 0"
  let ?pos = "nat n * block_size d"
  have lp: "length ?pad = block_size d" using len by simp
  have d': "d' = d\<lparr>disk_file := file_write (disk_file d) ?pos ?pad\<rparr>"
    using w write_block_eq [OF rng len] by simp
  have fits: "?pos + length ?pad \<le> length (disk_file d)"
    using block_end_le [OF ok, of "nat n"] rng lp by simp
  show "disk_ok d'"
    using ok length_file_write [OF fits] by (simp add: d' disk_ok_def)
  show "block_at d' (nat n) = ?pad"
    using file_read_write_same [OF fits] lp by (simp add: d' block_at_def)
  show "block_at d' k = block_at d k" if ne: "k \<noteq> nat n"
  proof (cases "k < nat n")
    case True
    then have "Suc k * block_size d \<le> ?pos" by (intro mult_le_mono1) simp
    then have "k * block_size d + block_size d \<le> ?pos" by simp
    moreover have "?pos \<le> length (disk_file d)" using fits by simp
    ultimately show ?thesis
      by (simp add: d' block_at_def file_read_write_before)
  next
    case False
    with ne have "Suc (nat n) \<le> k" by simp
    then have "Suc (nat n) * block_size d \<le> k * block_size d" by (intro mult_le_mono1)
    then have "?pos + length ?pad \<le> k * block_size d" using lp by simp
    moreover have "?pos \<le> length (disk_file d)" using fits by simp
    ultimately show ?thesis
      by (simp add: d' block_at_def file_read_write_after)
  qed
qed

section \<open>Absent names\<close>

text \<open>
  Claim C7. For a name that is not in the inode table, \<open>read_file\<close> returns \<open>None\<close>,
  \<open>delete_file\<close> returns \<open>False\<close> and \<open>write_file\<close> returns \<open>False\<close> (the
  \<open>FileNotFoundError\<close> of \<open>_get_inode\<close> is caught), and the engine after each call is the
  engine before it: the backing file, the bitmap in it and the inode table are unchanged.
\<close>

theorem not_found_semantics:
  "map_of (inodes fs) name = None \<Longrightarrow>
     read_file name fs = Inr None \<and>
     delete_file dumps name fs = (Inr False, fs) \<and>
     write_file dumps name data offset fs = (Inr False, fs)"
  by (simp add: read_file_def delete_file_def write_file_def write_file_body_def get_inode_def)

theorem not_found_semantics_witness:
  "map_of (inodes example_fs) ''ghost'' = None \<and>
   read_file ''ghost'' example_fs = Inr None \<and>
   delete_file example_dumps ''ghost'' example_fs = (Inr False, example_fs) \<and>
   write_file example_dumps ''ghost'' [1, 2] 0 example_fs = (Inr False, example_fs)"
proof -
  have h: "map_of (inodes example_fs) ''ghost'' = None"
    by (simp add: example_fs_def)
  show ?thesis
    using h not_found_semantics [OF h, of example_dumps "[1, 2]" 0] by simp
qed

section \<open>Bitmap indices\<close>

lemma py_setitem_in:
  "n < length xs \<Longrightarrow> py_setitem xs (int n) v = Inr (xs[n := v])"
  by (simp add: py_setitem_def)

lemma py_getitem_in:
  "n < length xs \<Longrightarrow> py_getitem xs (int n) = Inr (xs ! n)"
  by (simp add: py_getitem_def)

lemma mark_block_eq:
  assumes ok: "disk_ok d" and tb: "0 < total_blocks d" and n: "n < block_size d"
  shows "mark_block_used d (int n) = write_block d 0 ((block_at d 0)[n := 1])"
    and "mark_block_free d (int n) = write_block d 0 ((block_at d 0)[n := 0])"
    and "is_block_used d (int n) = Inr (block_at d 0 ! n = 1)"
proof -
  have r: "read_block d 0 = Inr (block_at d 0)"
    using tb read_block_eq [of 0 d] by simp
  have l: "n < length (block_at d 0)"
    using n length_block_at [OF ok tb] by simp
  show "mark_block_used d (int n) = write_block d 0 ((block_at d 0)[n := 1])"
    by (simp add: mark_block_used_def r py_setitem_in [OF l])
  show "mark_block_free d (int n) = write_block d 0 ((block_at d 0)[n := 0])"
    by (simp add: mark_block_free_def r py_setitem_in [OF l])
  show "is_block_used d (int n) = Inr (block_at d 0 ! n = 1)"
    by (simp add: is_block_used_def r py_getitem_in [OF l])
qed

lemma write_bitmap_ok:
  assumes ok: "disk_ok d" and tb: "0 < total_blocks d" and len: "length bm = block_size d"
  shows "\<exists>d'. write_block d 0 bm = Inr d' \<and> disk_ok d' \<and> same_geometry d d' \<and>
           block_at d' 0 = bm \<and> (\<forall>k. k \<noteq> 0 \<longrightarrow> block_at d' k = block_at d k)"
proof -
  obtain d' where w: "write_block d 0 bm = Inr d'"
    using tb len write_block_eq [of 0 d bm] by simp
  from write_block_effect [OF ok w] write_block_geometry [OF w] w len show ?thesis
    by simp
qed

text \<open>
  Claim C10. \<open>mark_block_used\<close>, \<open>mark_block_free\<close> and \<open>is_block_used\<close> check no
  range: on a well-formed device with at least one block, for every \<open>n\<close> with
  \<open>total_blocks \<le> n < block_size\<close> they return normally, having written or read byte
  \<open>n\<close> of the bitmap block, while \<open>read_block\<close> and \<open>write_block\<close> raise the
  out-of-range \<open>ValueError\<close> for the same \<open>n\<close>, as they do for every index outside
  \<open>[0, total_blocks)\<close> (lemmas \<open>read_block_out\<close>, \<open>write_block_out\<close>).
\<close>

theorem bitmap_indices_unvalidated:
  assumes ok: "disk_ok d" and tb: "0 < total_blocks d"
    and lo: "total_blocks d \<le> n" and hi: "n < block_size d"
  shows "(\<exists>d'. mark_block_used d (int n) = Inr d' \<and> block_at d' 0 = (block_at d 0)[n := 1]) \<and>
         (\<exists>d'. mark_block_free d (int n) = Inr d' \<and> block_at d' 0 = (block_at d 0)[n := 0]) \<and>
         is_block_used d (int n) = Inr (block_at d 0 ! n = 1) \<and>
         read_block d (int n) = Inl (OutOfRange (int n)) \<and>
         write_block d (int n) data = Inl (OutOfRange (int n))"
proof -
  have l: "length ((block_at d 0)[n := v]) = block_size d" for v
    using length_block_at [OF ok tb] by simp
  have "\<exists>d'. mark_block_used d (int n) = Inr d' \<and> block_at d' 0 = (block_at d 0)[n := 1]"
    using write_bitmap_ok [OF ok tb l, of 1] mark_block_eq(1) [OF ok tb hi] by auto
  moreover have "\<exists>d'. mark_block_free d (int n) = Inr d' \<and> block_at d' 0 = (block_at d 0)[n := 0]"
    using write_bitmap_ok [OF ok tb l, of 0] mark_block_eq(2) [OF ok tb hi] by auto
  moreover have "read_block d (int n) = Inl (OutOfRange (int n))"
    using lo by (simp add: read_block_def)
  moreover have "write_block d (int n) data = Inl (OutOfRange (int n))"
    using lo by (simp add: write_block_def)
  ultimately show ?thesis
    using mark_block_eq(3) [OF ok tb hi] by simp
qed

theorem bitmap_indices_unvalidated_witness:
  "disk_ok tiny_disk \<and> 0 < total_blocks tiny_disk \<and> total_blocks tiny_disk \<le> 6 \<and>
   6 < block_size tiny_disk \<and>
   (\<exists>d'. mark_block_used tiny_disk 6 = Inr d' \<and> block_at d' 0 = [1, 0, 0, 0, 0, 0, 1, 0]) \<and>
   (\<exists>d'. mark_block_free tiny_disk 6 = Inr d' \<and> block_at d' 0 = [1, 0, 0, 0, 0, 0, 0, 0]) \<and>
   is_block_used tiny_disk 6 = Inr False \<and>
   read_block tiny_disk 6 = Inl (OutOfRange 6) \<and>
   write_block tiny_disk 6 [9] = Inl (OutOfRange 6)"
proof -
  have h: "disk_ok tiny_disk" "0 < total_blocks tiny_disk" "total_blocks tiny_disk \<le> 6"
    "6 < block_size tiny_disk"
    by (simp_all add: tiny_disk_def disk_ok_def)
  have b: "block_at tiny_disk 0 = [1, 0, 0, 0, 0, 0, 0, 0]"
    by code_simp
  show ?thesis
    using h bitmap_indices_unvalidated [OF h, of "[9]"] by (simp add: b)
qed

section \<open>What the loops leave alone\<close>

lemma same_geometry_refl: "same_geometry d d"
  by (simp add: same_geometry_def)

lemma same_geometry_trans:
  "same_geometry a b \<Longrightarrow> same_geometry b c \<Longrightarrow> same_geometry a c"
  by (simp add: same_geometry_def)

lemma mark_block_used_geometry:
  "mark_block_used d n = Inr d' \<Longrightarrow> same_geometry d d'"
  by (auto simp: mark_block_used_def split: sum.splits dest: write_block_geometry)

lemma mark_block_free_geometry:
  "mark_block_free d n = Inr d' \<Longrightarrow> same_geometry d d'"
  by (auto simp: mark_block_free_def split: sum.splits dest: write_block_geometry)

lemma free_blocks_geometry:
  "free_blocks d bs = (r, d') \<Longrightarrow> same_geometry d d'"
proof (induction bs arbitrary: d)
  case Nil
  then show ?case by (simp add: same_geometry_refl)
next
  case (Cons b bs)
  show ?case
  proof (cases "mark_block_free d b")
    case (Inl e)
    with Cons.prems show ?thesis by (simp add: same_geometry_refl)
  next
    case (Inr d1)
    with Cons.prems have "free_blocks d1 bs = (r, d')" by simp
    from Cons.IH [OF this] mark_block_free_geometry [OF Inr] show ?thesis
      by (rule same_geometry_trans [rotated])
  qed
qed

text \<open>Allocation touches the device only: the table and its block number stay.\<close>

lemma allocate_missing_frame:
  "allocate_missing fs m ls = (r, fs') \<Longrightarrow>
     inodes fs' = inodes fs \<and> inode_table_block fs' = inode_table_block fs \<and>
     same_geometry (disk fs) (disk fs')"
proof (induction fs m ls rule: allocate_missing.induct)
  case (1 fs m)
  then show ?case by (simp add: same_geometry_refl)
next
  case (2 fs m l ls)
  show ?case
  proof (cases "map_of m l \<noteq> None")
    case True
    with 2 show ?thesis by simp
  next
    case False
    show ?thesis
    proof (cases "allocate_new_block fs")
      case (Inl e)
      with False "2.prems" show ?thesis by (simp add: same_geometry_refl)
    next
      case nb: (Inr new_block)
      show ?thesis
      proof (cases "mark_block_used (disk fs) new_block")
        case (Inl e)
        with False nb "2.prems" show ?thesis by (simp add: same_geometry_refl)
      next
        case (Inr d1)
        with False nb "2.prems"
        have "allocate_missing (fs\<lparr>disk := d1\<rparr>) (AList.update l new_block m) ls = (r, fs')"
          by simp
        from "2.IH"(2) [OF False nb Inr this] mark_block_used_geometry [OF Inr]
        show ?thesis by (auto intro: same_geometry_trans)
      qed
    qed
  qed
qed

lemma write_loop_geometry:
  "write_loop d m data cur doff = (r, d') \<Longrightarrow> same_geometry d d'"
proof (induction d m data cur doff rule: write_loop.induct)
  case (1 d m data cur doff)
  show ?case
  proof (cases "doff < length data \<and> block_size d \<noteq> 0")
    case False
    with "1.prems" show ?thesis
      by (auto simp: write_loop.simps [of d] same_geometry_refl split: if_splits)
  next
    case True
    show ?thesis
    proof (cases "map_of m (cur div block_size d)")
      case None
      with True "1.prems" show ?thesis
        by (simp add: write_loop.simps [of d] same_geometry_refl)
    next
      case (Some p)
      show ?thesis
      proof (cases "read_block d p")
        case (Inl e)
        with True Some "1.prems" show ?thesis
          by (simp add: write_loop.simps [of d] same_geometry_refl)
      next
        case rd: (Inr cb)
        let ?n = "min (block_size d - cur mod block_size d) (length data - doff)"
        let ?blk = "py_setslice cb (cur mod block_size d) (cur mod block_size d + ?n)
                      (take ?n (drop doff data))"
        show ?thesis
        proof (cases "write_block d p ?blk")
          case (Inl e)
          with True Some rd "1.prems" show ?thesis
            by (simp add: write_loop.simps [of d] same_geometry_refl)
        next
          case (Inr d1)
          with True Some rd "1.prems"
          have "write_loop d1 m data (cur + ?n) (doff + ?n) = (r, d')"
            by (simp add: write_loop.simps [of d])
          from "1.IH" [OF _ _ Some rd Inr this] True write_block_geometry [OF Inr]
          show ?thesis by (auto intro: same_geometry_trans)
        qed
      qed
    qed
  qed
qed

section \<open>Capacity of the inode table\<close>

lemma save_inode_table_oversized:
  assumes "1 < total_blocks (disk fs)" "inode_table_block fs = 1"
    and "block_size (disk fs) < length (dumps (inodes fs))"
  shows "save_inode_table dumps fs = (Inl (OversizedWrite (length (dumps (inodes fs)))), fs)"
  using assms by (simp add: save_inode_table_def write_block_def)

text \<open>
  Claim C8. The inode table has one block. On an engine whose device has a block 1,
  when the serialised table is longer than \<open>block_size\<close>, \<open>save_inode_table\<close> raises the
  oversized-write \<open>ValueError\<close> of \<open>write_block\<close>, and the operation that was saving
  raises it too instead of returning \<open>False\<close>: \<open>create_file\<close> of a new name,
  \<open>delete_file\<close> once the blocks are freed, and \<open>write_file\<close> once the blocks are
  allocated and written (only \<open>FileNotFoundError\<close> is caught there).
\<close>

theorem inode_table_capacity:
  assumes tb: "1 < total_blocks (disk fs)" and itb: "inode_table_block fs = 1"
  shows
    "(block_size (disk fs) < length (dumps (inodes fs)) \<longrightarrow>
        save_inode_table dumps fs = (Inl (OversizedWrite (length (dumps (inodes fs)))), fs)) \<and>
     (map_of (inodes fs) new_name = None \<and>
      block_size (disk fs) < length (dumps (AList.update new_name (new_Inode new_name now) (inodes fs))) \<longrightarrow>
        fst (create_file dumps now new_name fs) =
          Inl (OversizedWrite
                (length (dumps (AList.update new_name (new_Inode new_name now) (inodes fs)))))) \<and>
     (map_of (inodes fs) name = Some inode \<and>
      free_blocks (disk fs) (inode_blocks inode) = (Inr u, d') \<and>
      block_size (disk fs) < length (dumps (AList.delete name (inodes fs))) \<longrightarrow>
        fst (delete_file dumps name fs) =
          Inl (OversizedWrite (length (dumps (AList.delete name (inodes fs)))))) \<and>
     (map_of (inodes fs) name = Some inode \<and>
      calculate_blocks_needed fs offset (length data) = Inr blocks_needed \<and>
      ensure_blocks_allocated inode blocks_needed fs = (Inr block_mapping, fs1) \<and>
      write_data_to_blocks data offset block_mapping fs1 = (Inr u, fs2) \<and>
      block_size (disk fs) <
        length (dumps (AList.update name
          (inode\<lparr>inode_blocks := map (\<lambda>i. the (map_of block_mapping i))
                                     (sort (map fst block_mapping)),
                 inode_size := max (inode_size inode) (offset + length data)\<rparr>)
          (inodes fs))) \<longrightarrow>
        fst (write_file dumps name data offset fs) =
          Inl (OversizedWrite (length (dumps (AList.update name
            (inode\<lparr>inode_blocks := map (\<lambda>i. the (map_of block_mapping i))
                                       (sort (map fst block_mapping)),
                   inode_size := max (inode_size inode) (offset + length data)\<rparr>)
            (inodes fs))))))"
proof (intro conjI impI)
  assume "block_size (disk fs) < length (dumps (inodes fs))"
  then show "save_inode_table dumps fs = (Inl (OversizedWrite (length (dumps (inodes fs)))), fs)"
    using tb itb by (rule save_inode_table_oversized [rotated 2])
next
  let ?fs = "fs\<lparr>inodes := AList.update new_name (new_Inode new_name now) (inodes fs)\<rparr>"
  assume a: "map_of (inodes fs) new_name = None \<and>
      block_size (disk fs) < length (dumps (AList.update new_name (new_Inode new_name now) (inodes fs)))"
  then have "save_inode_table dumps ?fs =
      (Inl (OversizedWrite (length (dumps (inodes ?fs)))), ?fs)"
    using tb itb by (intro save_inode_table_oversized) simp_all
  with a show "fst (create_file dumps now new_name fs) =
      Inl (OversizedWrite
            (length (dumps (AList.update new_name (new_Inode new_name now) (inodes fs)))))"
    by (simp add: create_file_def)
next
  let ?fs = "fs\<lparr>disk := d', inodes := AList.delete name (inodes fs)\<rparr>"
  assume a: "map_of (inodes fs) name = Some inode \<and>
      free_blocks (disk fs) (inode_blocks inode) = (Inr u, d') \<and>
      block_size (disk fs) < length (dumps (AList.delete name (inodes fs)))"
  then have g: "same_geometry (disk fs) d'"
    by (auto dest: free_blocks_geometry)
  have "save_inode_table dumps ?fs =
      (Inl (OversizedWrite (length (dumps (inodes ?fs)))), ?fs)"
    using tb itb a g by (intro save_inode_table_oversized) (simp_all add: same_geometry_def)
  with a show "fst (delete_file dumps name fs) =
      Inl (OversizedWrite (length (dumps (AList.delete name (inodes fs)))))"
    by (simp add: delete_file_def)
next
  let ?tbl = "AList.update name
          (inode\<lparr>inode_blocks := map (\<lambda>i. the (map_of block_mapping i))
                                     (sort (map fst block_mapping)),
                 inode_size := max (inode_size inode) (offset + length data)\<rparr>)
          (inodes fs)"
  assume a: "map_of (inodes fs) name = Some inode \<and>
      calculate_blocks_needed fs offset (length data) = Inr blocks_needed \<and>
      ensure_blocks_allocated inode blocks_needed fs = (Inr block_mapping, fs1) \<and>
      write_data_to_blocks data offset block_mapping fs1 = (Inr u, fs2) \<and>
      block_size (disk fs) < length (dumps ?tbl)"
  then have "allocate_missing fs (zip [0 ..< length (inode_blocks inode)] (inode_blocks inode))
      blocks_needed = (Inr block_mapping, fs1)"
    by (simp add: ensure_blocks_allocated_def)
  from allocate_missing_frame [OF this]
  have f1: "inodes fs1 = inodes fs" "inode_table_block fs1 = inode_table_block fs"
      "same_geometry (disk fs) (disk fs1)"
    by simp_all
  obtain d2 where wl: "write_loop (disk fs1) block_mapping data offset 0 = (Inr u, d2)"
    and fs2: "fs2 = fs1\<lparr>disk := d2\<rparr>"
    using a by (auto simp: write_data_to_blocks_def split: prod.splits)
  have g2: "same_geometry (disk fs1) d2"
    using wl by (rule write_loop_geometry)
  let ?fs = "fs2\<lparr>inodes := ?tbl\<rparr>"
  have "save_inode_table dumps ?fs = (Inl (OversizedWrite (length (dumps (inodes ?fs)))), ?fs)"
    using tb itb a f1 g2 by (intro save_inode_table_oversized) (simp_all add: fs2 same_geometry_def)
  then have "update_inode dumps name inode offset (length data) block_mapping fs2 =
      (Inl (OversizedWrite (length (dumps ?tbl))), ?fs)"
    using f1 by (simp add: update_inode_def fs2)
  with a show "fst (write_file dumps name data offset fs) = Inl (OversizedWrite (length (dumps ?tbl)))"
    by (simp add: write_file_def write_file_body_def get_inode_def)
qed

theorem inode_table_capacity_witness:
  "1 < total_blocks (disk crowded_fs) \<and> inode_table_block crowded_fs = 1 \<and>
   block_size (disk crowded_fs) < length (crowded_dumps (inodes crowded_fs)) \<and>
   save_inode_table crowded_dumps crowded_fs = (Inl (OversizedWrite 18), crowded_fs) \<and>
   map_of (inodes crowded_fs) ''c'' = None \<and>
   fst (create_file crowded_dumps 0 ''c'' crowded_fs) = Inl (OversizedWrite 27) \<and>
   map_of (inodes crowded_fs) ''a'' = Some (new_Inode ''a'' 0) \<and>
   fst (delete_file crowded_dumps ''a'' crowded_fs) = Inl (OversizedWrite 9) \<and>
   fst (write_file crowded_dumps ''a'' [5, 6] 0 crowded_fs) = Inl (OversizedWrite 18)"
proof -
  have h: "1 < total_blocks (disk crowded_fs)" "inode_table_block crowded_fs = 1"
    by code_simp+
  have b: "block_size (disk crowded_fs) = 8"
    by code_simp
  have t: "inodes crowded_fs = [(''a'', new_Inode ''a'' 0), (''b'', new_Inode ''b'' 0)]"
    by (simp add: crowded_fs_def)
  have a1: "block_size (disk crowded_fs) < length (crowded_dumps (inodes crowded_fs))"
    by (simp add: b t crowded_dumps_def)
  have a2: "map_of (inodes crowded_fs) ''c'' = None \<and>
      block_size (disk crowded_fs) <
        length (crowded_dumps (AList.update ''c'' (new_Inode ''c'' 0) (inodes crowded_fs)))"
    by (simp add: b t crowded_dumps_def)
  have a3: "map_of (inodes crowded_fs) ''a'' = Some (new_Inode ''a'' 0) \<and>
      free_blocks (disk crowded_fs) (inode_blocks (new_Inode ''a'' 0)) = (Inr (), disk crowded_fs) \<and>
      block_size (disk crowded_fs) < length (crowded_dumps (AList.delete ''a'' (inodes crowded_fs)))"
    by (simp add: b t crowded_dumps_def new_Inode_def)
  let ?e = "ensure_blocks_allocated (new_Inode ''a'' 0) [0, 1] crowded_fs"
  let ?w = "write_data_to_blocks [5, 6] 0 [(0, 2), (1, 3)] (snd ?e)"
  have e: "fst ?e = Inr [(0, 2), (1, 3)]"
    by code_simp
  have w: "fst ?w = Inr ()"
    by code_simp
  have c: "calculate_blocks_needed crowded_fs 0 (length [5 :: byte, 6]) = Inr [0, 1]"
    by code_simp
  have a4: "map_of (inodes crowded_fs) ''a'' = Some (new_Inode ''a'' 0) \<and>
      calculate_blocks_needed crowded_fs 0 (length [5 :: byte, 6]) = Inr [0, 1] \<and>
      ?e = (Inr [(0, 2), (1, 3)], snd ?e) \<and> ?w = (Inr (), snd ?w) \<and>
      block_size (disk crowded_fs) <
        length (crowded_dumps (AList.update ''a''
          ((new_Inode ''a'' 0)\<lparr>inode_blocks := map (\<lambda>i. the (map_of [(0, 2), (1, 3)] i))
                                     (sort (map fst [(0 :: nat, 2 :: int), (1, 3)])),
                 inode_size := max (inode_size (new_Inode ''a'' 0)) (0 + length [5 :: byte, 6])\<rparr>)
          (inodes crowded_fs)))"
    using e w c by (simp add: prod_eq_iff b t crowded_dumps_def)
  show ?thesis
    using h a1 a2 a3 a4
      inode_table_capacity [OF h, of crowded_dumps "''c''" 0 "''a''" "new_Inode ''a'' 0" "()"
        "disk crowded_fs" 0 "[5, 6]" "[0, 1]" "[(0, 2), (1, 3)]" "snd ?e" "snd ?w"]
    by (simp add: t crowded_dumps_def)
qed

section \<open>Construction of the device and the engine\<close>

lemma rstrip0_zeros: "rstrip0 (replicate n 0) = []"
proof -
  have "dropWhile (\<lambda>b. b = 0) (replicate n (0 :: byte)) = []"
    by (induction n) simp_all
  then show ?thesis by (simp add: rstrip0_def)
qed

text \<open>The device over a file: block 0 is a fresh bitmap, whatever the file held.\<close>

lemma VirtualDisk_init_eq:
  assumes "0 < B"
  shows "VirtualDisk_init existing T B =
           write_block
             \<lparr>disk_file = (case existing of Some content \<Rightarrow> content | None \<Rightarrow> replicate T 0),
              total_size_bytes = T, block_size = B, total_blocks = T div B, bitmap_blocks = 1\<rparr>
             0 ((replicate B 0)[0 := 1])"
  using assms by (simp add: VirtualDisk_init_def initializeBitmap_def py_setitem_def)

lemma VirtualDisk_init_bitmap:
  assumes B: "0 < B" and T: "B \<le> T"
  shows "\<exists>d. VirtualDisk_init existing T B = Inr d \<and> block_size d = B \<and>
           total_blocks d = T div B \<and> total_size_bytes d = T \<and>
           read_block d 0 = Inr ((replicate B 0)[0 := 1])"
proof -
  have tb: "0 < T div B" using B T by (simp add: div_greater_zero_iff)
  show ?thesis
    using B tb
    by (simp add: VirtualDisk_init_eq write_block_def read_block_def file_write_def file_read_def)
qed

lemma VirtualDisk_init_fresh:
  assumes B: "0 < B" and T: "B \<le> T"
  shows "VirtualDisk_init None T B =
           Inr \<lparr>disk_file = (replicate B 0)[0 := 1] @ replicate (T - B) 0,
                total_size_bytes = T, block_size = B, total_blocks = T div B, bitmap_blocks = 1\<rparr>"
proof -
  have tb: "0 < T div B" using B T by (simp add: div_greater_zero_iff)
  show ?thesis
    using B tb by (simp add: VirtualDisk_init_eq write_block_def file_write_def)
qed


lemma first_free_head:
  "Suc k < length bitmap \<Longrightarrow> bitmap ! Suc k = 0 \<Longrightarrow>
     first_free bitmap (Suc k # rest) = Inr (Some (int (Suc k)))"
  by (simp add: py_getitem_def nat_add_distrib)

text \<open>
  Claim C5 (what the code does). \<open>VirtualDisk.__init__\<close> calls \<open>initializeBitmap\<close>
  whether or not the file existed: over every existing file the constructor succeeds and
  block 0 afterwards is the fresh bitmap \<open>1, 0, 0, \<dots>\<close>, so a block (here block 2)
  that the file's bitmap marked used reads as free.
\<close>

theorem bitmap_reset_on_reopen:
  "\<exists>d. VirtualDisk_init (Some existing) (1024 * 1024) 4096 = Inr d \<and>
       read_block d 0 = Inr ((replicate 4096 0)[0 := 1]) \<and>
       is_block_used d 2 = Inr False"
proof -
  obtain d where d: "VirtualDisk_init (Some existing) (1024 * 1024) 4096 = Inr d"
    and r: "read_block d 0 = Inr ((replicate 4096 0)[0 := 1])"
    using VirtualDisk_init_bitmap [of 4096 "1024 * 1024" "Some existing"] by auto
  have "is_block_used d 2 = Inr False"
    by (simp add: is_block_used_def r py_getitem_def)
  with d r show ?thesis by blast
qed

lemma FileSystem_init_fresh: "FileSystem_init loads dumps None = Inr fresh_fs"
proof -
  have d: "VirtualDisk_init None (1024 * 1024) 4096 = Inr fresh_disk"
    unfolding fresh_disk_def by (rule VirtualDisk_init_fresh) simp_all
  have r1: "read_block fresh_disk 1 = Inr (replicate 4096 0)"
    by (simp add: fresh_disk_def read_block_def file_read_def)
  have "load_inode_table loads dumps fresh_fs = (Inr (), fresh_fs)"
    by (simp add: load_inode_table_def fresh_fs_def r1 rstrip0_zeros)
  then show ?thesis
    unfolding FileSystem_init_def d by (simp add: fresh_fs_def)
qed

lemma fresh_bitmap: "read_block fresh_disk 0 = Inr ((replicate 4096 0)[0 := 1])"
  by (simp add: fresh_disk_def read_block_def file_read_def)

text \<open>
  Claim C6 (what the code does). \<open>FileSystem(disk_path)\<close> over a path with no file: the
  new file is all NUL, block 1 decodes to the empty string, \<open>load_inode_table\<close> neither
  loads nor saves, and \<open>mark_block_used(1)\<close> is never called. Byte 1 of the bitmap is 0
  after the constructor, and \<open>get_free_block\<close> offers block 1, the inode table's block.
\<close>

theorem block_1_free_after_init:
  "FileSystem_init loads dumps None = Inr fresh_fs \<and> inodes fresh_fs = [] \<and>
   read_block (disk fresh_fs) 0 = Inr ((replicate 4096 0)[0 := 1]) \<and>
   is_block_used (disk fresh_fs) 1 = Inr False \<and>
   get_free_block (disk fresh_fs) = Inr (Some 1)"
proof -
  have u: "is_block_used fresh_disk 1 = Inr False"
    by (simp add: is_block_used_def fresh_bitmap py_getitem_def)
  have "[1 ..< total_blocks fresh_disk] = Suc 0 # [2 ..< 256]"
    by (simp add: fresh_disk_def upt_conv_Cons)
  then have g: "get_free_block fresh_disk = Inr (Some 1)"
    using first_free_head [of 0 "(replicate 4096 0)[0 := 1]" "[2 ..< 256]"]
    by (simp add: get_free_block_def fresh_bitmap)
  show ?thesis
    using FileSystem_init_fresh [of loads dumps] fresh_bitmap u g by (simp add: fresh_fs_def)
qed

section \<open>The allocation loop\<close>

lemma first_free_Some:
  "first_free bm ks = Inr (Some p) \<Longrightarrow> \<exists>k \<in> set ks. p = int k \<and> k < length bm \<and> bm ! k = 0"
  by (induction ks) (auto simp: py_getitem_def split: if_splits)

lemma first_free_None:
  "first_free bm ks = Inr None \<longleftrightarrow> (\<forall>k \<in> set ks. k < length bm \<and> bm ! k \<noteq> 0)"
  by (induction ks) (auto simp: py_getitem_def)

lemma update_absent: "map_of m l = None \<Longrightarrow> AList.update l v m = m @ [(l, v)]"
  by (induction m) (auto split: if_splits)

lemma read_bitmap:
  "read_block d 0 = Inr bm \<Longrightarrow> 0 < total_blocks d \<and> bm = block_at d 0"
  by (auto simp: read_block_def block_at_def split: if_splits)

lemma allocate_step:
  assumes ok: "disk_ok (disk fs)" and a: "allocate_new_block fs = Inr p"
    and mk: "mark_block_used (disk fs) p = Inr d'"
  shows "1 \<le> p \<and> p < int (total_blocks (disk fs)) \<and> nat p < block_size (disk fs) \<and>
         block_at (disk fs) 0 ! nat p = 0 \<and> disk_ok d' \<and>
         block_at d' 0 = (block_at (disk fs) 0)[nat p := 1] \<and>
         (\<forall>k. k \<noteq> 0 \<longrightarrow> block_at d' k = block_at (disk fs) k)"
proof -
  let ?d = "disk fs"
  from a obtain bm where rb: "read_block ?d 0 = Inr bm"
    and ff: "first_free bm [1 ..< total_blocks ?d] = Inr (Some p)"
    by (auto simp: allocate_new_block_def get_free_block_def split: sum.splits option.splits)
  from read_bitmap [OF rb] have tb: "0 < total_blocks ?d" and bm: "bm = block_at ?d 0"
    by simp_all
  have lb: "length bm = block_size ?d"
    using length_block_at [OF ok tb] bm by simp
  from first_free_Some [OF ff] obtain k where k: "1 \<le> k" "k < total_blocks ?d" "p = int k"
      "k < length bm" "bm ! k = 0"
    by auto
  have w: "write_block ?d 0 ((block_at ?d 0)[k := 1]) = Inr d'"
    using mk mark_block_eq(1) [OF ok tb, of k] k lb by simp
  have l: "length ((block_at ?d 0)[k := 1]) = block_size ?d"
    using lb bm by simp
  from write_block_effect [OF ok w] l
  have "disk_ok d'" "block_at d' 0 = (block_at ?d 0)[k := 1]"
    "\<And>j. j \<noteq> 0 \<Longrightarrow> block_at d' j = block_at ?d j"
    by simp_all
  then show ?thesis
    using k lb bm by simp
qed

lemma allocate_missing_spec:
  assumes "allocate_missing fs m ls = (Inr m', fs')" and "disk_ok (disk fs)" and "distinct ls"
  shows "\<exists>new. m' = m @ new \<and> map fst new = filter (\<lambda>l. map_of m l = None) ls \<and>
           distinct (map snd new) \<and>
           (\<forall>p \<in> set (map snd new). 1 \<le> p \<and> p < int (total_blocks (disk fs)) \<and>
               nat p < block_size (disk fs) \<and> block_at (disk fs) 0 ! nat p = 0) \<and>
           disk_ok (disk fs') \<and>
           (\<forall>k. k \<noteq> 0 \<longrightarrow> block_at (disk fs') k = block_at (disk fs) k) \<and>
           (\<forall>k < block_size (disk fs). block_at (disk fs') 0 ! k =
               (if int k \<in> set (map snd new) then 1 else block_at (disk fs) 0 ! k))"
  using assms
proof (induction fs m ls rule: allocate_missing.induct)
  case (1 fs m)
  then show ?case by simp
next
  case (2 fs m l ls)
  show ?case
  proof (cases "map_of m l \<noteq> None")
    case True
    with "2.prems" have "allocate_missing fs m ls = (Inr m', fs')" "distinct ls"
      by simp_all
    from "2.IH"(1) [OF True this(1) "2.prems"(2) this(2)]
    have ih: "\<exists>new. m' = m @ new \<and> map fst new = filter (\<lambda>l. map_of m l = None) ls \<and>
           distinct (map snd new) \<and>
           (\<forall>p \<in> set (map snd new). 1 \<le> p \<and> p < int (total_blocks (disk fs)) \<and>
               nat p < block_size (disk fs) \<and> block_at (disk fs) 0 ! nat p = 0) \<and>
           disk_ok (disk fs') \<and>
           (\<forall>k. k \<noteq> 0 \<longrightarrow> block_at (disk fs') k = block_at (disk fs) k) \<and>
           (\<forall>k < block_size (disk fs). block_at (disk fs') 0 ! k =
               (if int k \<in> set (map snd new) then 1 else block_at (disk fs) 0 ! k))" .
    have "filter (\<lambda>x. map_of m x = None) (l # ls) = filter (\<lambda>x. map_of m x = None) ls"
      using True by simp
    with ih show ?thesis by (simp only:)
  next
    case False
    then have absent: "map_of m l = None" by simp
    from False "2.prems"(1) obtain p where nb: "allocate_new_block fs = Inr p"
      by (auto split: sum.splits)
    from False nb "2.prems"(1) obtain d1 where mk: "mark_block_used (disk fs) p = Inr d1"
      by (auto split: sum.splits)
    let ?fs1 = "fs\<lparr>disk := d1\<rparr>"
    let ?m1 = "AList.update l p m"
    have rec: "allocate_missing ?fs1 ?m1 ls = (Inr m', fs')"
      using False nb mk "2.prems"(1) by simp
    from allocate_step [OF "2.prems"(2) nb mk]
    have p: "1 \<le> p" "p < int (total_blocks (disk fs))" "nat p < block_size (disk fs)"
        "block_at (disk fs) 0 ! nat p = 0"
      and ok1: "disk_ok d1"
      and bm1: "block_at d1 0 = (block_at (disk fs) 0)[nat p := 1]"
      and oth1: "\<And>k. k \<noteq> 0 \<Longrightarrow> block_at d1 k = block_at (disk fs) k"
      by simp_all
    have g1: "block_size d1 = block_size (disk fs)" "total_blocks d1 = total_blocks (disk fs)"
      using mark_block_used_geometry [OF mk] by (simp_all add: same_geometry_def)
    have tb: "0 < total_blocks (disk fs)" using p by simp
    have lb: "length (block_at (disk fs) 0) = block_size (disk fs)"
      using length_block_at [OF "2.prems"(2) tb] .
    have dl: "distinct ls" and nl: "l \<notin> set ls"
      using "2.prems"(3) by simp_all
    have sel: "disk ?fs1 = d1" by simp
    note ih = "2.IH"(2) [OF False nb mk rec, unfolded sel, OF ok1 dl]
    from ih obtain new1 where n1: "m' = ?m1 @ new1"
        "map fst new1 = filter (\<lambda>x. map_of ?m1 x = None) ls"
        "distinct (map snd new1)"
      and n1p': "\<forall>q \<in> set (map snd new1). 1 \<le> q \<and> q < int (total_blocks d1) \<and>
               nat q < block_size d1 \<and> block_at d1 0 ! nat q = 0"
      and ok': "disk_ok (disk fs')"
      and oth'': "\<forall>k. k \<noteq> 0 \<longrightarrow> block_at (disk fs') k = block_at d1 k"
      and bm'': "\<forall>k < block_size d1. block_at (disk fs') 0 ! k =
               (if int k \<in> set (map snd new1) then 1 else block_at d1 0 ! k)"
      by (elim exE conjE)
    have n1p: "1 \<le> q \<and> q < int (total_blocks d1) \<and>
               nat q < block_size d1 \<and> block_at d1 0 ! nat q = 0"
      if "q \<in> set (map snd new1)" for q
      using n1p' that by blast
    have oth': "block_at (disk fs') k = block_at d1 k" if "k \<noteq> 0" for k
      using oth'' that by blast
    have bm': "block_at (disk fs') 0 ! k =
               (if int k \<in> set (map snd new1) then 1 else block_at d1 0 ! k)"
      if "k < block_size d1" for k
      using bm'' that by blast
    have m1: "?m1 = m @ [(l, p)]"
      using absent by (rule update_absent)
    have keys: "filter (\<lambda>x. map_of ?m1 x = None) ls = filter (\<lambda>x. map_of m x = None) ls"
      using nl by (intro filter_cong) (auto simp: m1 map_add_def split: option.splits)
    have fresh: "nat q \<noteq> nat p \<and> block_at (disk fs) 0 ! nat q = 0"
      if "q \<in> set (map snd new1)" for q
    proof -
      from n1p [OF that] have q: "1 \<le> q" "nat q < block_size d1" "block_at d1 0 ! nat q = 0"
        by simp_all
      have "nat q \<noteq> nat p"
      proof
        assume "nat q = nat p"
        with q(3) bm1 p(3) lb show False by simp
      qed
      with q(3) bm1 show ?thesis by simp
    qed
    have pn: "p \<notin> set (map snd new1)"
      using fresh by auto
    let ?new = "(l, p) # new1"
    have "m' = m @ ?new" using n1(1) m1 by simp
    moreover have "map fst ?new = filter (\<lambda>x. map_of m x = None) (l # ls)"
      using n1(2) keys absent by simp
    moreover have "distinct (map snd ?new)" using n1(3) pn by simp
    moreover have "\<forall>q \<in> set (map snd ?new). 1 \<le> q \<and> q < int (total_blocks (disk fs)) \<and>
               nat q < block_size (disk fs) \<and> block_at (disk fs) 0 ! nat q = 0"
      using p n1p fresh g1 by auto
    moreover have "\<forall>k. k \<noteq> 0 \<longrightarrow> block_at (disk fs') k = block_at (disk fs) k"
      using oth' oth1 by simp
    moreover have "\<forall>k < block_size (disk fs). block_at (disk fs') 0 ! k =
               (if int k \<in> set (map snd ?new) then 1 else block_at (disk fs) 0 ! k)"
    proof (intro allI impI)
      fix k assume k: "k < block_size (disk fs)"
      have "int k = p \<longleftrightarrow> k = nat p" using p(1) by auto
      then show "block_at (disk fs') 0 ! k =
               (if int k \<in> set (map snd ?new) then 1 else block_at (disk fs) 0 ! k)"
        using bm' [of k] k g1 bm1 lb by (auto simp: nth_list_update)
    qed
    ultimately show ?thesis
      using ok' by blast
  qed
qed

section \<open>The write loop\<close>

lemma in_chunk_iff:
  fixes B cur g n :: nat
  assumes B: "0 < B" and n: "n \<le> B - cur mod B"
  shows "(g div B = cur div B \<and> cur mod B \<le> g mod B \<and> g mod B < cur mod B + n) \<longleftrightarrow>
         (cur \<le> g \<and> g < cur + n)"
proof
  assume a: "g div B = cur div B \<and> cur mod B \<le> g mod B \<and> g mod B < cur mod B + n"
  have "g = cur div B * B + g mod B"
    using a div_mult_mod_eq [of g B] by simp
  moreover have "cur = cur div B * B + cur mod B"
    by simp
  ultimately show "cur \<le> g \<and> g < cur + n"
    using a by linarith
next
  assume a: "cur \<le> g \<and> g < cur + n"
  have c: "cur = cur div B * B + cur mod B"
    by simp
  have lt: "cur mod B < B" using B by simp
  have "cur div B * B \<le> g" using a c by linarith
  moreover have "g < Suc (cur div B) * B"
  proof -
    have "cur + n \<le> cur div B * B + B" using c n lt by linarith
    then show ?thesis using a by simp
  qed
  ultimately have d: "g div B = cur div B"
    by (intro div_nat_eqI) (simp_all add: mult.commute)
  have "g = cur div B * B + g mod B"
    using d div_mult_mod_eq [of g B] by simp
  then show "g div B = cur div B \<and> cur mod B \<le> g mod B \<and> g mod B < cur mod B + n"
    using d a c by linarith
qed

lemma map_of_inj_values:
  assumes "distinct (map snd m)" "map_of m i = Some p" "map_of m j = Some p"
  shows "i = j"
proof -
  have "(i, p) \<in> set m" "(j, p) \<in> set m"
    using assms(2,3) by (auto dest: map_of_SomeD)
  moreover have "inj_on snd (set m)"
    using assms(1) by (simp add: distinct_map)
  ultimately have "(i, p) = (j, p)"
    by (intro inj_onD [of snd "set m"]) simp_all
  then show ?thesis by simp
qed

lemma py_setslice_nth:
  assumes "length cb = B" "bo + n \<le> B" "length chunk = n" "j < B"
  shows "py_setslice cb bo (bo + n) chunk ! j =
           (if bo \<le> j \<and> j < bo + n then chunk ! (j - bo) else cb ! j)"
    and "length (py_setslice cb bo (bo + n) chunk) = B"
  using assms by (auto simp: py_setslice_def nth_append)

lemma write_step:
  assumes ok: "disk_ok d" and B: "0 < block_size d"
    and p0: "map_of m (cur div block_size d) = Some p0"
    and rd: "read_block d p0 = Inr cb"
    and n1: "n \<le> block_size d - cur mod block_size d" and n2: "n \<le> length data - doff"
    and wr: "write_block d p0 (py_setslice cb (cur mod block_size d) (cur mod block_size d + n)
               (take n (drop doff data))) = Inr d1"
    and dist: "distinct (map snd m)" and nonneg: "\<forall>p \<in> set (map snd m). 0 \<le> p"
    and mi: "map_of m i = Some p" and j: "j < block_size d"
  shows "block_at d1 (nat p) ! j =
           (if cur \<le> i * block_size d + j \<and> i * block_size d + j < cur + n
            then data ! (doff + (i * block_size d + j - cur)) else block_at d (nat p) ! j)"
proof -
  let ?B = "block_size d"
  let ?bo = "cur mod ?B"
  let ?chunk = "take n (drop doff data)"
  let ?blk = "py_setslice cb ?bo (?bo + n) ?chunk"
  let ?g = "i * ?B + j"
  from rd have rng: "0 \<le> p0" "p0 < int (total_blocks d)" and cb: "cb = block_at d (nat p0)"
    by (auto simp: read_block_def block_at_def split: if_splits)
  have lcb: "length cb = ?B"
    using length_block_at [OF ok, of "nat p0"] rng cb by simp
  have lch: "length ?chunk = n" using n2 by simp
  have fit: "?bo + n \<le> ?B"
    using n1 mod_less_divisor [OF B, of cur] by linarith
  have lblk: "length ?blk = ?B"
    using py_setslice_nth(2) [OF lcb fit lch] j by simp
  have new: "block_at d1 (nat p0) = ?blk"
    using write_block_effect(2) [OF ok wr] lblk by simp
  have gd: "?g div ?B = i" "?g mod ?B = j" using j by simp_all
  have iff: "(i = cur div ?B \<and> ?bo \<le> j \<and> j < ?bo + n) \<longleftrightarrow> (cur \<le> ?g \<and> ?g < cur + n)"
    using in_chunk_iff [OF B n1, of ?g] gd by simp
  show ?thesis
  proof (cases "p = p0")
    case True
    then have i: "i = cur div ?B"
      using map_of_inj_values [OF dist mi] p0 by simp
    have "block_at d1 (nat p) ! j = (if ?bo \<le> j \<and> j < ?bo + n then ?chunk ! (j - ?bo) else cb ! j)"
      using py_setslice_nth(1) [OF lcb fit lch j] new True by simp
    moreover have "?chunk ! (j - ?bo) = data ! (doff + (?g - cur))" if "?bo \<le> j \<and> j < ?bo + n"
    proof -
      have "cur = cur div ?B * ?B + ?bo" by simp
      then have e: "?g - cur = j - ?bo" using i that by (metis add_diff_cancel_left' diff_diff_left)
      have k: "j - ?bo < n" using that by linarith
      then have le: "doff \<le> length data" using n2 by linarith
      have "?chunk ! (j - ?bo) = drop doff data ! (j - ?bo)"
        using k by (rule nth_take)
      also have "\<dots> = data ! (doff + (j - ?bo))"
        using le by (rule nth_drop)
      finally show ?thesis by (simp only: e)
    qed
    ultimately show ?thesis
      using iff i cb True by auto
  next
    case False
    have "(i, p) \<in> set m" "(cur div ?B, p0) \<in> set m"
      using mi p0 by (auto dest: map_of_SomeD)
    then have "0 \<le> p" using nonneg by force
    then have "nat p \<noteq> nat p0" using False rng by simp
    then have same: "block_at d1 (nat p) = block_at d (nat p)"
      using write_block_effect(3) [OF ok wr] by simp
    have "i \<noteq> cur div ?B" using False mi p0 by auto
    then show ?thesis using iff same by auto
  qed
qed

lemma write_loop_spec:
  assumes "write_loop d m data cur doff = (Inr u, d')" and "disk_ok d"
    and "distinct (map snd m)" and "\<forall>p \<in> set (map snd m). 0 \<le> p"
    and "\<forall>g. cur \<le> g \<and> g < cur + (length data - doff) \<longrightarrow> map_of m (g div block_size d) \<noteq> None"
  shows "disk_ok d' \<and>
         (\<forall>k. int k \<notin> set (map snd m) \<longrightarrow> block_at d' k = block_at d k) \<and>
         (\<forall>i p j. map_of m i = Some p \<and> j < block_size d \<longrightarrow>
            block_at d' (nat p) ! j =
              (if cur \<le> i * block_size d + j \<and> i * block_size d + j < cur + (length data - doff)
               then data ! (doff + (i * block_size d + j - cur)) else block_at d (nat p) ! j))"
  using assms
proof (induction d m data cur doff rule: write_loop.induct)
  case (1 d m data cur doff)
  note ok = "1.prems"(2) and dist = "1.prems"(3) and nonneg = "1.prems"(4) and cov = "1.prems"(5)
  let ?B = "block_size d"
  have B: "0 < ?B" using ok by (simp add: disk_ok_def)
  show ?case
  proof (cases "doff < length data")
    case False
    with "1.prems"(1) have "d' = d" by (simp add: write_loop.simps [of d])
    with False ok show ?thesis by auto
  next
    case True
    let ?n = "min (?B - cur mod ?B) (length data - doff)"
    let ?blk = "\<lambda>cb. py_setslice cb (cur mod ?B) (cur mod ?B + ?n) (take ?n (drop doff data))"
    have Bnz: "?B \<noteq> 0" using B by simp
    from cov True obtain p0 where p0: "map_of m (cur div ?B) = Some p0"
      by (metis le_refl less_add_same_cancel1 not_None_eq zero_less_diff)
    from "1.prems"(1) True Bnz p0 obtain cb where rd: "read_block d p0 = Inr cb"
      by (cases "read_block d p0") (simp_all add: write_loop.simps [of d])
    from "1.prems"(1) True Bnz p0 rd obtain d1 where wr: "write_block d p0 (?blk cb) = Inr d1"
      by (cases "write_block d p0 (?blk cb)") (simp_all add: write_loop.simps [of d])
    have rec: "write_loop d1 m data (cur + ?n) (doff + ?n) = (Inr u, d')"
      using "1.prems"(1) True Bnz p0 rd wr by (simp add: write_loop.simps [of d])
    have ok1: "disk_ok d1" using write_block_effect(1) [OF ok wr] .
    have g1: "block_size d1 = ?B"
      using write_block_geometry [OF wr] by (simp add: same_geometry_def)
    define n where "n = ?n"
    have n1: "n \<le> ?B - cur mod ?B" and n2: "n \<le> length data - doff"
      by (simp_all add: n_def)
    have wr': "write_block d p0 (py_setslice cb (cur mod ?B) (cur mod ?B + n)
                 (take n (drop doff data))) = Inr d1"
      using wr by (simp only: n_def)
    have cov1: "\<forall>g. cur + n \<le> g \<and> g < cur + n + (length data - (doff + n)) \<longrightarrow>
                  map_of m (g div block_size d1) \<noteq> None"
    proof (intro allI impI)
      fix g assume "cur + n \<le> g \<and> g < cur + n + (length data - (doff + n))"
      then have "cur \<le> g \<and> g < cur + (length data - doff)" using n2 by linarith
      then show "map_of m (g div block_size d1) \<noteq> None" using cov g1 by simp
    qed
    note ih = "1.IH" [OF True Bnz p0 rd wr rec ok1 dist nonneg cov1 [unfolded n_def],
        unfolded g1, folded n_def]
    from rd have rng: "0 \<le> p0" by (auto simp: read_block_def split: if_splits)
    have p0m: "p0 \<in> set (map snd m)"
      using p0 by (force dest: map_of_SomeD)
    have frame: "block_at d1 k = block_at d k" if "int k \<notin> set (map snd m)" for k
    proof -
      have "int k \<noteq> p0" using that p0m by blast
      then have "k \<noteq> nat p0" using rng by auto
      then show ?thesis using write_block_effect(3) [OF ok wr] by simp
    qed
    have step: "block_at d1 (nat p) ! j =
           (if cur \<le> i * ?B + j \<and> i * ?B + j < cur + n
            then data ! (doff + (i * ?B + j - cur)) else block_at d (nat p) ! j)"
      if "map_of m i = Some p" "j < ?B" for i p j
      using write_step [OF ok B p0 rd n1 n2 wr' dist nonneg that] .
    have "block_at d' (nat p) ! j =
              (if cur \<le> i * ?B + j \<and> i * ?B + j < cur + (length data - doff)
               then data ! (doff + (i * ?B + j - cur)) else block_at d (nat p) ! j)"
      if mi: "map_of m i = Some p" and j: "j < ?B" for i p j
    proof -
      let ?g = "i * ?B + j"
      have a: "block_at d' (nat p) ! j =
              (if cur + n \<le> ?g \<and> ?g < cur + n + (length data - (doff + n))
               then data ! (doff + n + (?g - (cur + n))) else block_at d1 (nat p) ! j)"
        using ih mi j by blast
      show ?thesis
      proof (cases "cur + n \<le> ?g \<and> ?g < cur + n + (length data - (doff + n))")
        case True
        then have e1: "doff + n + (?g - (cur + n)) = doff + (?g - cur)" by linarith
        have c2: "cur \<le> ?g \<and> ?g < cur + (length data - doff)" using True n2 by linarith
        from a [unfolded if_P [OF True]]
        have "block_at d' (nat p) ! j = data ! (doff + n + (?g - (cur + n)))" .
        also have "\<dots> = data ! (doff + (?g - cur))" by (simp only: e1)
        finally show ?thesis unfolding if_P [OF c2] .
      next
        case False
        from a [unfolded if_not_P [OF False]]
        have "block_at d' (nat p) ! j = block_at d1 (nat p) ! j" .
        also have "\<dots> = (if cur \<le> ?g \<and> ?g < cur + n
            then data ! (doff + (?g - cur)) else block_at d (nat p) ! j)"
          using step [OF mi j] .
        also have "\<dots> = (if cur \<le> ?g \<and> ?g < cur + (length data - doff)
               then data ! (doff + (?g - cur)) else block_at d (nat p) ! j)"
          using False n2 by (auto simp: not_le not_less)
        finally show ?thesis .
      qed
    qed
    moreover have "block_at d' k = block_at d k" if "int k \<notin> set (map snd m)" for k
      using ih frame that by simp
    moreover have "disk_ok d'" using ih by blast
    ultimately show ?thesis by blast
  qed
qed

section \<open>Saving the table and reading blocks\<close>

lemma mark_block_used_effect:
  assumes ok: "disk_ok d" and n: "0 \<le> n" and mk: "mark_block_used d n = Inr d'"
  shows "nat n < block_size d \<and> disk_ok d' \<and> block_at d' 0 = (block_at d 0)[nat n := 1] \<and>
         (\<forall>k. k \<noteq> 0 \<longrightarrow> block_at d' k = block_at d k)"
proof -
  from mk obtain bm where rb: "read_block d 0 = Inr bm"
    by (auto simp: mark_block_used_def split: sum.splits)
  from read_bitmap [OF rb] have tb: "0 < total_blocks d" and bm: "bm = block_at d 0"
    by simp_all
  have lb: "length bm = block_size d"
    using length_block_at [OF ok tb] bm by simp
  have lt: "nat n < block_size d"
    using mk rb n lb by (auto simp: mark_block_used_def py_setitem_def split: if_splits)
  have w: "write_block d 0 ((block_at d 0)[nat n := 1]) = Inr d'"
    using mk mark_block_eq(1) [OF ok tb lt] n by simp
  have l: "length ((block_at d 0)[nat n := 1]) = block_size d"
    using lb bm by simp
  from write_block_effect [OF ok w] l lt show ?thesis
    by simp
qed

lemma save_inode_table_effect:
  assumes ok: "disk_ok (disk fs)" and itb: "inode_table_block fs = 1"
    and sv: "save_inode_table dumps fs = (Inr u, fs')"
  shows "inodes fs' = inodes fs \<and> inode_table_block fs' = 1 \<and> disk_ok (disk fs') \<and>
         same_geometry (disk fs) (disk fs') \<and> 1 < total_blocks (disk fs) \<and>
         1 < block_size (disk fs) \<and>
         block_at (disk fs') 0 = (block_at (disk fs) 0)[1 := 1] \<and>
         (\<forall>k. 2 \<le> k \<longrightarrow> block_at (disk fs') k = block_at (disk fs) k)"
proof -
  from sv itb obtain d1 where w: "write_block (disk fs) 1 (dumps (inodes fs)) = Inr d1"
    by (auto simp: save_inode_table_def split: sum.splits)
  from sv itb w obtain d2 where mk: "mark_block_used d1 1 = Inr d2" and fs': "fs' = fs\<lparr>disk := d2\<rparr>"
    by (auto simp: save_inode_table_def split: sum.splits)
  have ok1: "disk_ok d1" and oth1: "\<And>k. k \<noteq> 1 \<Longrightarrow> block_at d1 k = block_at (disk fs) k"
    using write_block_effect [OF ok w] by simp_all
  have g1: "block_size d1 = block_size (disk fs)"
    using write_block_geometry [OF w] by (simp add: same_geometry_def)
  from mark_block_used_effect [OF ok1 _ mk]
  have "1 < block_size d1" "disk_ok d2" "block_at d2 0 = (block_at d1 0)[1 := 1]"
    "\<And>k. k \<noteq> 0 \<Longrightarrow> block_at d2 k = block_at d1 k"
    by simp_all
  moreover have "1 < total_blocks (disk fs)"
    using w by (auto simp: write_block_def split: if_splits)
  moreover have "same_geometry (disk fs) d2"
    using write_block_geometry [OF w] mark_block_used_geometry [OF mk]
    by (rule same_geometry_trans)
  ultimately show ?thesis
    using fs' itb oth1 g1 by simp
qed

lemma concat_nth_blocks:
  assumes "\<forall>b \<in> set bs. length b = B" and "0 < B" and "g < B * length bs"
  shows "concat bs ! g = bs ! (g div B) ! (g mod B)"
  using assms
proof (induction bs arbitrary: g)
  case Nil
  then show ?case by simp
next
  case (Cons b bs)
  show ?case
  proof (cases "g < B")
    case True
    with Cons.prems show ?thesis by (simp add: nth_append)
  next
    case False
    then have ge: "B \<le> g" by simp
    have "g - B < B * length bs" using Cons.prems(3) ge by simp
    with Cons have ih: "concat bs ! (g - B) = bs ! ((g - B) div B) ! ((g - B) mod B)"
      by simp
    have "g div B = Suc ((g - B) div B)" using Cons.prems(2) ge by (rule le_div_geq)
    moreover have "g mod B = (g - B) mod B" using ge by (rule le_mod_geq)
    ultimately show ?thesis
      using Cons.prems(1) False ih by (simp add: nth_append)
  qed
qed

lemma read_blocks_eq:
  assumes "disk_ok d" and "\<forall>p \<in> set ps. 0 \<le> p \<and> p < int (total_blocks d)"
  shows "read_blocks d sz ps acc =
           Inr (acc @ take (sz - length acc) (concat (map (\<lambda>p. block_at d (nat p)) ps)))"
  using assms
proof (induction ps arbitrary: acc)
  case Nil
  then show ?case by simp
next
  case (Cons p ps)
  have rng: "0 \<le> p" "p < int (total_blocks d)" using Cons.prems(2) by simp_all
  have rd: "read_block d p = Inr (block_at d (nat p))"
    using rng by (rule read_block_eq)
  have len: "length (block_at d (nat p)) = block_size d"
    using length_block_at [OF Cons.prems(1), of "nat p"] rng by simp
  have ih: "read_blocks d sz ps acc' =
           Inr (acc' @ take (sz - length acc') (concat (map (\<lambda>p. block_at d (nat p)) ps)))" for acc'
    using Cons.IH [OF Cons.prems(1)] Cons.prems(2) by simp
  show ?case
  proof (cases "length acc + block_size d > sz")
    case True
    let ?acc' = "acc @ take (sz - length acc) (block_at d (nat p))"
    have k: "sz - length acc \<le> block_size d" using True by simp
    then have z: "sz - length ?acc' = 0" using len by simp
    have "read_blocks d sz (p # ps) acc = read_blocks d sz ps ?acc'"
      using rd True by simp
    also have "\<dots> = Inr ?acc'"
      unfolding ih z by simp
    also have "?acc' = acc @ take (sz - length acc)
        (concat (map (\<lambda>p. block_at d (nat p)) (p # ps)))"
      using k len by simp
    finally show ?thesis .
  next
    case False
    then show ?thesis
      using rd len by (simp add: ih)
  qed
qed

lemma blocks_of_sorted_mapping:
  assumes "sorted (map fst m)" and "distinct (map fst m)"
  shows "map (\<lambda>i. the (map_of m i)) (sort (map fst m)) = map snd m"
proof -
  have "sort (map fst m) = map fst m"
    using assms(1) by (rule sort_key_id_if_sorted [of "\<lambda>x. x", simplified])
  moreover have "the (map_of m (fst x)) = snd x" if "x \<in> set m" for x
    using assms(2) that by (cases x) simp
  ultimately show ?thesis by simp
qed

section \<open>Writing a new file and reading it back\<close>

lemma write_file_True:
  assumes "write_file dumps name data offset fs = (Inr True, fs')"
  shows "\<exists>inode needed m fsa fsb.
           get_inode fs name = Inr inode \<and>
           calculate_blocks_needed fs offset (length data) = Inr needed \<and>
           ensure_blocks_allocated inode needed fs = (Inr m, fsa) \<and>
           write_data_to_blocks data offset m fsa = (Inr (), fsb) \<and>
           update_inode dumps name inode offset (length data) m fsb = (Inr (), fs')"
proof -
  from assms have b: "write_file_body dumps name data offset fs = (Inr True, fs')"
    by (auto simp: write_file_def split: prod.splits sum.splits error.splits)
  then obtain inode where i: "get_inode fs name = Inr inode"
    by (cases "get_inode fs name") (simp_all add: write_file_body_def)
  from b i obtain needed where c: "calculate_blocks_needed fs offset (length data) = Inr needed"
    by (cases "calculate_blocks_needed fs offset (length data)") (simp_all add: write_file_body_def)
  obtain r1 fsa where e: "ensure_blocks_allocated inode needed fs = (r1, fsa)"
    by (cases "ensure_blocks_allocated inode needed fs")
  from b i c e obtain m where r1: "r1 = Inr m"
    by (cases r1) (simp_all add: write_file_body_def)
  obtain r2 fsb where w: "write_data_to_blocks data offset m fsa = (r2, fsb)"
    by (cases "write_data_to_blocks data offset m fsa")
  from b i c e r1 w have r2: "r2 = Inr ()"
    by (cases r2) (simp_all add: write_file_body_def)
  obtain r3 fsc where u: "update_inode dumps name inode offset (length data) m fsb = (r3, fsc)"
    by (cases "update_inode dumps name inode offset (length data) m fsb")
  from b i c e r1 w r2 u have "r3 = Inr () \<and> fsc = fs'"
    by (cases r3) (simp_all add: write_file_body_def)
  with i c e r1 w r2 u show ?thesis by blast
qed

lemma create_file_True:
  assumes ok: "fs_ok fs" and cr: "create_file dumps now name fs = (Inr True, fs1)"
  shows "fs_ok fs1 \<and> map_of (inodes fs1) name = Some (new_Inode name now) \<and>
         1 < block_size (disk fs1) \<and> block_at (disk fs1) 0 ! 1 = 1"
proof -
  let ?fs = "fs\<lparr>inodes := AList.update name (new_Inode name now) (inodes fs)\<rparr>"
  from cr have sv: "save_inode_table dumps ?fs = (Inr (), fs1)"
    by (auto simp: create_file_def split: if_splits prod.splits sum.splits)
  have ok': "disk_ok (disk ?fs)" and itb': "inode_table_block ?fs = 1"
    using ok by (simp_all add: fs_ok_def)
  from save_inode_table_effect [OF ok' itb' sv]
  have e: "inodes fs1 = inodes ?fs" "inode_table_block fs1 = 1" "disk_ok (disk fs1)"
      "1 < block_size (disk ?fs)" "block_at (disk fs1) 0 = (block_at (disk ?fs) 0)[1 := 1]"
    and g: "same_geometry (disk ?fs) (disk fs1)" and tb: "1 < total_blocks (disk ?fs)"
    by simp_all
  have "length (block_at (disk ?fs) 0) = block_size (disk ?fs)"
    using length_block_at [OF ok' ] tb by simp
  then have "block_at (disk fs1) 0 ! 1 = 1"
    using e(4,5) by simp
  then show ?thesis
    using e g by (simp add: fs_ok_def update_conv' same_geometry_def)
qed

lemma length_concat_blocks:
  "\<forall>b \<in> set bs. length b = B \<Longrightarrow> length (concat bs) = B * length bs"
  by (induction bs) simp_all

lemma take_concat_blocks_eq:
  assumes B: "0 < B" and len: "\<forall>b \<in> set bs. length b = B"
    and fit: "length D \<le> B * length bs"
    and eq: "\<forall>g < length D. bs ! (g div B) ! (g mod B) = D ! g"
  shows "take (length D) (concat bs) = D"
proof (rule nth_equalityI)
  show "length (take (length D) (concat bs)) = length D"
    using fit length_concat_blocks [OF len] by simp
next
  fix g assume "g < length (take (length D) (concat bs))"
  then have g: "g < length D" by simp
  then have "g < B * length bs" using fit by simp
  from concat_nth_blocks [OF len B this] eq g
  show "take (length D) (concat bs) ! g = D ! g" by simp
qed

lemma ensure_from_empty:
  assumes ok: "disk_ok (disk fs)" and e: "inode_blocks inode = []"
    and en: "ensure_blocks_allocated inode [a ..< b] fs = (Inr m, fsa)"
  shows "map fst m = [a ..< b] \<and> distinct (map snd m) \<and>
         (\<forall>p \<in> set (map snd m). 1 \<le> p \<and> p < int (total_blocks (disk fs)) \<and>
             nat p < block_size (disk fs) \<and> block_at (disk fs) 0 ! nat p = 0) \<and>
         disk_ok (disk fsa) \<and>
         (\<forall>k. k \<noteq> 0 \<longrightarrow> block_at (disk fsa) k = block_at (disk fs) k) \<and>
         (\<forall>k < block_size (disk fs). block_at (disk fsa) 0 ! k =
             (if int k \<in> set (map snd m) then 1 else block_at (disk fs) 0 ! k))"
proof -
  have am: "allocate_missing fs [] [a ..< b] = (Inr m, fsa)"
    using en e by (simp add: ensure_blocks_allocated_def)
  from allocate_missing_spec [OF am ok] show ?thesis
    by simp
qed

lemma map_of_upt_keys:
  assumes "map fst m = [0 ..< n]" and "i < n"
  shows "map_of m i = Some (map snd m ! i)"
proof -
  have l: "length m = n" using assms(1) by (metis length_map length_upt diff_zero)
  have d: "distinct (map fst m)" using assms(1) by simp
  have "fst (m ! i) = i"
    using assms l by (metis add_0 nth_map nth_upt)
  then have "(i, map snd m ! i) \<in> set m"
    using assms(2) l by (metis nth_map nth_mem prod.collapse)
  with d show ?thesis by (rule map_of_is_SomeI)
qed

lemma write_fresh_inode:
  assumes ok: "fs_ok fs" and ino: "map_of (inodes fs) name = Some inode"
    and e: "inode_blocks inode = []"
    and wr: "write_file dumps name D 0 fs = (Inr True, fs')"
  shows "\<exists>ps. length ps = (length D + block_size (disk fs) - 1) div block_size (disk fs) + 1 \<and>
           distinct ps \<and>
           (\<forall>p \<in> set ps. 1 \<le> p \<and> p < int (total_blocks (disk fs)) \<and>
               nat p < block_size (disk fs) \<and> block_at (disk fs) 0 ! nat p = 0) \<and>
           map_of (inodes fs') name =
             Some (inode\<lparr>inode_blocks := ps, inode_size := max (inode_size inode) (length D)\<rparr>) \<and>
           fs_ok fs' \<and> same_geometry (disk fs) (disk fs') \<and>
           (\<forall>k < block_size (disk fs). block_at (disk fs') 0 ! k =
               (if int k \<in> set ps \<or> k = 1 then 1 else block_at (disk fs) 0 ! k)) \<and>
           (\<forall>i j. i < length ps \<and> j < block_size (disk fs) \<and> 2 \<le> ps ! i \<longrightarrow>
               block_at (disk fs') (nat (ps ! i)) ! j =
                 (if i * block_size (disk fs) + j < length D then D ! (i * block_size (disk fs) + j)
                  else block_at (disk fs) (nat (ps ! i)) ! j))"
proof -
  let ?B = "block_size (disk fs)"
  let ?E = "(length D + ?B - 1) div ?B"
  have dok: "disk_ok (disk fs)" and itb: "inode_table_block fs = 1"
    using ok by (simp_all add: fs_ok_def)
  have B: "0 < ?B" using dok by (simp add: disk_ok_def)
  from write_file_True [OF wr] ino obtain needed m fsa fsb where
    c: "calculate_blocks_needed fs 0 (length D) = Inr needed"
    and en: "ensure_blocks_allocated inode needed fs = (Inr m, fsa)"
    and wd: "write_data_to_blocks D 0 m fsa = (Inr (), fsb)"
    and up: "update_inode dumps name inode 0 (length D) m fsb = (Inr (), fs')"
    by (auto simp: get_inode_def)
  have needed: "needed = [0 ..< ?E + 1]"
    using c B by (simp add: calculate_blocks_needed_def)
  define ps where "ps = map snd m"
  from ensure_from_empty [OF dok e en [unfolded needed]]
  have keys: "map fst m = [0 ..< ?E + 1]" and dist: "distinct ps"
    and fresh: "\<forall>p \<in> set ps. 1 \<le> p \<and> p < int (total_blocks (disk fs)) \<and>
             nat p < ?B \<and> block_at (disk fs) 0 ! nat p = 0"
    and oka: "disk_ok (disk fsa)"
    and otha: "\<forall>k. k \<noteq> 0 \<longrightarrow> block_at (disk fsa) k = block_at (disk fs) k"
    and bma: "\<forall>k < ?B. block_at (disk fsa) 0 ! k =
             (if int k \<in> set ps then 1 else block_at (disk fs) 0 ! k)"
    unfolding ps_def by blast+
  have lps: "length ps = ?E + 1"
    using keys unfolding ps_def by (metis length_map length_upt diff_zero)
  from en have "allocate_missing fs (zip [0 ..< length (inode_blocks inode)] (inode_blocks inode))
      needed = (Inr m, fsa)"
    by (simp add: ensure_blocks_allocated_def)
  from allocate_missing_frame [OF this]
  have fra: "inodes fsa = inodes fs" "inode_table_block fsa = 1" "same_geometry (disk fs) (disk fsa)"
    using itb by simp_all
  have Ba: "block_size (disk fsa) = ?B" using fra(3) by (simp add: same_geometry_def)
  from wd obtain d' where wl: "write_loop (disk fsa) m D 0 0 = (Inr (), d')"
    and fsb: "fsb = fsa\<lparr>disk := d'\<rparr>"
    by (auto simp: write_data_to_blocks_def split: prod.splits)
  have nonneg: "\<forall>p \<in> set (map snd m). 0 \<le> p"
    using fresh unfolding ps_def by force
  have cov: "\<forall>g. 0 \<le> g \<and> g < 0 + (length D - 0) \<longrightarrow> map_of m (g div block_size (disk fsa)) \<noteq> None"
  proof (intro allI impI)
    fix g :: nat assume "0 \<le> g \<and> g < 0 + (length D - 0)"
    then have "g \<le> length D + ?B - 1" by simp
    then have "g div ?B \<le> ?E" by (rule div_le_mono)
    then have "g div ?B < ?E + 1" by simp
    from map_of_upt_keys [OF keys this] show "map_of m (g div block_size (disk fsa)) \<noteq> None"
      by (simp add: Ba)
  qed
  from write_loop_spec [OF wl oka dist [unfolded ps_def] nonneg cov]
  have okb: "disk_ok d'"
    and othb: "\<forall>k. int k \<notin> set ps \<longrightarrow> block_at d' k = block_at (disk fsa) k"
    and datab: "\<forall>i p j. map_of m i = Some p \<and> j < ?B \<longrightarrow>
            block_at d' (nat p) ! j =
              (if 0 \<le> i * ?B + j \<and> i * ?B + j < 0 + (length D - 0)
               then D ! (0 + (i * ?B + j - 0)) else block_at (disk fsa) (nat p) ! j)"
    unfolding ps_def Ba by blast+
  have gb: "same_geometry (disk fsa) d'" using wl by (rule write_loop_geometry)
  let ?inode' = "inode\<lparr>inode_blocks := map (\<lambda>i. the (map_of m i)) (sort (map fst m)),
                        inode_size := max (inode_size inode) (0 + length D)\<rparr>"
  let ?fsc = "fsb\<lparr>inodes := AList.update name ?inode' (inodes fsb)\<rparr>"
  have sv: "save_inode_table dumps ?fsc = (Inr (), fs')"
    using up by (simp add: update_inode_def)
  have okc: "disk_ok (disk ?fsc)" and itbc: "inode_table_block ?fsc = 1"
    using okb fra fsb by simp_all
  from save_inode_table_effect [OF okc itbc sv]
  have e': "inodes fs' = inodes ?fsc" "inode_table_block fs' = 1" "disk_ok (disk fs')"
    and gc: "same_geometry d' (disk fs')" and tbc: "1 < total_blocks d'"
    and oneB: "1 < block_size d'"
    and bm': "block_at (disk fs') 0 = (block_at d' 0)[1 := 1]"
    and oth': "\<forall>k. 2 \<le> k \<longrightarrow> block_at (disk fs') k = block_at d' k"
    using fsb by simp_all
  have geo: "same_geometry (disk fs) (disk fs')"
    using fra(3) gb gc by (blast intro: same_geometry_trans)
  have blocks: "map (\<lambda>i. the (map_of m i)) (sort (map fst m)) = ps"
    unfolding ps_def by (rule blocks_of_sorted_mapping) (simp_all only: keys sorted_upt distinct_upt)
  have tbl: "map_of (inodes fs') name =
             Some (inode\<lparr>inode_blocks := ps, inode_size := max (inode_size inode) (length D)\<rparr>)"
    using e'(1) blocks by (simp add: update_conv')
  have tb: "0 < total_blocks (disk fs)"
    using tbc fra(3) gb by (simp add: same_geometry_def)
  have Bd: "block_size d' = ?B" using fra(3) gb by (simp add: same_geometry_def)
  have lbm: "length (block_at d' 0) = ?B"
    using length_block_at [OF okb, of 0] tb fra(3) gb by (simp add: same_geometry_def)
  have bitmap: "\<forall>k < ?B. block_at (disk fs') 0 ! k =
               (if int k \<in> set ps \<or> k = 1 then 1 else block_at (disk fs) 0 ! k)"
  proof (intro allI impI)
    fix k assume k: "k < ?B"
    have z: "int 0 \<notin> set ps" using fresh by force
    have "block_at d' 0 ! k = (if int k \<in> set ps then 1 else block_at (disk fs) 0 ! k)"
      using othb z bma k by simp
    then show "block_at (disk fs') 0 ! k =
               (if int k \<in> set ps \<or> k = 1 then 1 else block_at (disk fs) 0 ! k)"
      using bm' lbm k oneB Bd by (simp add: nth_list_update)
  qed
  have content: "\<forall>i j. i < length ps \<and> j < ?B \<and> 2 \<le> ps ! i \<longrightarrow>
               block_at (disk fs') (nat (ps ! i)) ! j =
                 (if i * ?B + j < length D then D ! (i * ?B + j)
                  else block_at (disk fs) (nat (ps ! i)) ! j)"
  proof (intro allI impI)
    fix i j assume a: "i < length ps \<and> j < ?B \<and> 2 \<le> ps ! i"
    then have mi: "map_of m i = Some (ps ! i)"
      using map_of_upt_keys [OF keys, of i] lps unfolding ps_def by simp
    have n2: "2 \<le> nat (ps ! i)" "nat (ps ! i) \<noteq> 0" using a by linarith+
    have "block_at (disk fs') (nat (ps ! i)) = block_at d' (nat (ps ! i))"
      using oth' n2(1) by blast
    moreover have "block_at (disk fsa) (nat (ps ! i)) = block_at (disk fs) (nat (ps ! i))"
      using otha n2(2) by blast
    ultimately show "block_at (disk fs') (nat (ps ! i)) ! j =
                 (if i * ?B + j < length D then D ! (i * ?B + j)
                  else block_at (disk fs) (nat (ps ! i)) ! j)"
      using datab mi a by simp
  qed
  show ?thesis
    using lps dist fresh tbl e'(2,3) geo bitmap content
    by (intro exI [of _ ps]) (simp add: fs_ok_def)
qed

lemma length_le_blocks:
  fixes n B :: nat
  assumes "0 < B"
  shows "n \<le> B * ((n + B - 1) div B + 1)"
proof -
  have "n div B \<le> (n + B - 1) div B"
    using assms by (intro div_le_mono) simp
  then have a: "B * (n div B) \<le> B * ((n + B - 1) div B)"
    by (rule mult_le_mono2)
  have b: "n = B * (n div B) + n mod B" by simp
  have c: "n mod B < B" using assms by simp
  have "B * ((n + B - 1) div B + 1) = B * ((n + B - 1) div B) + B"
    by simp
  with a b c show ?thesis by linarith
qed

text \<open>
  Claim C1. On a well-formed engine, when \<open>create_file(name)\<close> returns \<open>True\<close> and
  \<open>write_file(name, D, 0)\<close> then returns \<open>True\<close>, \<open>read_file(name)\<close> returns exactly
  \<open>D\<close>, for every byte sequence \<open>D\<close> (empty, shorter than a block, several blocks):
  the zero padding of the last block and the extra block are cut off at \<open>inode.size\<close>.
\<close>

theorem round_trip:
  assumes ok: "fs_ok fs"
    and cr: "create_file dumps now name fs = (Inr True, fs1)"
    and wr: "write_file dumps name D 0 fs1 = (Inr True, fs2)"
  shows "read_file name fs2 = Inr (Some D)"
proof -
  let ?B = "block_size (disk fs1)"
  let ?E = "(length D + ?B - 1) div ?B"
  from create_file_True [OF ok cr]
  have ok1: "fs_ok fs1" and ino: "map_of (inodes fs1) name = Some (new_Inode name now)"
    and used1: "block_at (disk fs1) 0 ! 1 = 1"
    by simp_all
  have B: "0 < ?B" using ok1 by (simp add: fs_ok_def disk_ok_def)
  have e: "inode_blocks (new_Inode name now) = []" by (simp add: new_Inode_def)
  from write_fresh_inode [OF ok1 ino e wr] obtain ps where
    lps: "length ps = ?E + 1"
    and fresh: "\<forall>p \<in> set ps. 1 \<le> p \<and> p < int (total_blocks (disk fs1)) \<and>
               nat p < ?B \<and> block_at (disk fs1) 0 ! nat p = 0"
    and tbl: "map_of (inodes fs2) name =
             Some ((new_Inode name now)\<lparr>inode_blocks := ps,
                    inode_size := max (inode_size (new_Inode name now)) (length D)\<rparr>)"
    and ok2: "fs_ok fs2" and geo: "same_geometry (disk fs1) (disk fs2)"
    and content: "\<forall>i j. i < length ps \<and> j < ?B \<and> 2 \<le> ps ! i \<longrightarrow>
               block_at (disk fs2) (nat (ps ! i)) ! j =
                 (if i * ?B + j < length D then D ! (i * ?B + j)
                  else block_at (disk fs1) (nat (ps ! i)) ! j)"
    by blast
  have dok2: "disk_ok (disk fs2)" using ok2 by (simp add: fs_ok_def)
  have g2: "block_size (disk fs2) = ?B" "total_blocks (disk fs2) = total_blocks (disk fs1)"
    using geo by (simp_all add: same_geometry_def)
  have ge2: "2 \<le> p" if "p \<in> set ps" for p
  proof -
    from fresh that have p: "1 \<le> p" "block_at (disk fs1) 0 ! nat p = 0" by simp_all
    have "p \<noteq> 1" using p(2) used1 by auto
    with p(1) show ?thesis by simp
  qed
  have rng: "\<forall>p \<in> set ps. 0 \<le> p \<and> p < int (total_blocks (disk fs2))"
    using fresh g2 by force
  let ?bs = "map (\<lambda>p. block_at (disk fs2) (nat p)) ps"
  have lens: "\<forall>b \<in> set ?bs. length b = ?B"
  proof
    fix b assume "b \<in> set ?bs"
    then obtain p where p: "p \<in> set ps" "b = block_at (disk fs2) (nat p)" by auto
    then have "nat p < total_blocks (disk fs2)" using rng by auto
    from length_block_at [OF dok2 this] p g2 show "length b = ?B" by simp
  qed
  have fit: "length D \<le> ?B * length ?bs"
    using length_le_blocks [OF B, of "length D"] lps by simp
  have eq: "\<forall>g < length D. ?bs ! (g div ?B) ! (g mod ?B) = D ! g"
  proof (intro allI impI)
    fix g assume g: "g < length D"
    then have "g \<le> length D + ?B - 1" by simp
    then have "g div ?B \<le> ?E" by (rule div_le_mono)
    then have i: "g div ?B < length ps" using lps by simp
    have j: "g mod ?B < ?B" using B by simp
    have "2 \<le> ps ! (g div ?B)" using ge2 i by simp
    with content i j have "block_at (disk fs2) (nat (ps ! (g div ?B))) ! (g mod ?B) =
        (if g div ?B * ?B + g mod ?B < length D then D ! (g div ?B * ?B + g mod ?B)
         else block_at (disk fs1) (nat (ps ! (g div ?B))) ! (g mod ?B))"
      by blast
    then show "?bs ! (g div ?B) ! (g mod ?B) = D ! g"
      using g i by simp
  qed
  have "read_blocks (disk fs2) (length D) ps [] = Inr (take (length D) (concat ?bs))"
    using read_blocks_eq [OF dok2 rng, of "length D" "[]"] by simp
  also have "take (length D) (concat ?bs) = D"
    using B lens fit eq by (rule take_concat_blocks_eq)
  finally have rb: "read_blocks (disk fs2) (length D) ps [] = Inr D" .
  have ne: "ps \<noteq> []" using lps by auto
  show ?thesis
    using tbl ne rb by (simp add: read_file_def new_Inode_def)
qed

theorem round_trip_witness:
  "fs_ok example_fs \<and>
   create_file example_dumps 0 ''a'' example_fs =
     (Inr True, snd (create_file example_dumps 0 ''a'' example_fs)) \<and>
   write_file example_dumps ''a'' [1, 2, 3, 4, 5, 6, 7, 8, 9] 0
       (snd (create_file example_dumps 0 ''a'' example_fs)) =
     (Inr True, snd (write_file example_dumps ''a'' [1, 2, 3, 4, 5, 6, 7, 8, 9] 0
       (snd (create_file example_dumps 0 ''a'' example_fs)))) \<and>
   read_file ''a'' (snd (write_file example_dumps ''a'' [1, 2, 3, 4, 5, 6, 7, 8, 9] 0
       (snd (create_file example_dumps 0 ''a'' example_fs)))) =
     Inr (Some [1, 2, 3, 4, 5, 6, 7, 8, 9])"
proof -
  let ?c = "create_file example_dumps 0 ''a'' example_fs"
  let ?w = "write_file example_dumps ''a'' [1, 2, 3, 4, 5, 6, 7, 8, 9] 0 (snd ?c)"
  have ok: "fs_ok example_fs"
    by code_simp
  have "fst ?c = Inr True" by code_simp
  then have c: "?c = (Inr True, snd ?c)" by (simp add: prod_eq_iff)
  have "fst ?w = Inr True" by code_simp
  then have w: "?w = (Inr True, snd ?w)" by (simp add: prod_eq_iff)
  from round_trip [OF ok c w] ok c w show ?thesis by blast
qed

section \<open>A zero-length write\<close>

lemma mark_block_used_ok:
  assumes ok: "disk_ok d" and tb: "0 < total_blocks d" and n: "n < block_size d"
  shows "\<exists>d'. mark_block_used d (int n) = Inr d'"
proof -
  have "length ((block_at d 0)[n := 1]) = block_size d"
    using length_block_at [OF ok tb] by simp
  from write_bitmap_ok [OF ok tb this] mark_block_eq(1) [OF ok tb n] show ?thesis
    by auto
qed

lemma save_inode_table_ok:
  assumes ok: "disk_ok (disk fs)" and itb: "inode_table_block fs = 1"
    and tb: "1 < total_blocks (disk fs)" and B: "1 < block_size (disk fs)"
    and fit: "length (dumps (inodes fs)) \<le> block_size (disk fs)"
  shows "\<exists>fs'. save_inode_table dumps fs = (Inr (), fs')"
proof -
  obtain d1 where w: "write_block (disk fs) 1 (dumps (inodes fs)) = Inr d1"
    using write_block_eq [of 1 "disk fs" "dumps (inodes fs)"] tb fit by auto
  have ok1: "disk_ok d1" using write_block_effect(1) [OF ok w] .
  have g: "block_size d1 = block_size (disk fs)" "total_blocks d1 = total_blocks (disk fs)"
    using write_block_geometry [OF w] by (simp_all add: same_geometry_def)
  obtain d2 where "mark_block_used d1 1 = Inr d2"
    using mark_block_used_ok [OF ok1, of 1] g tb B by auto
  then show ?thesis
    using w itb by (simp add: save_inode_table_def)
qed

lemma get_free_block_Some:
  assumes ok: "disk_ok d" and g: "get_free_block d = Inr (Some p)"
  shows "1 \<le> p \<and> p < int (total_blocks d) \<and> nat p < block_size d \<and> block_at d 0 ! nat p = 0"
proof -
  from g obtain bm where rb: "read_block d 0 = Inr bm"
    and ff: "first_free bm [1 ..< total_blocks d] = Inr (Some p)"
    by (auto simp: get_free_block_def split: sum.splits)
  from read_bitmap [OF rb] have tb: "0 < total_blocks d" and bm: "bm = block_at d 0"
    by simp_all
  have lb: "length bm = block_size d"
    using length_block_at [OF ok tb] bm by simp
  from first_free_Some [OF ff] lb bm show ?thesis by auto
qed

text \<open>
  Claim C9 (as amended). On a well-formed engine, for a file with an empty block list,
  when the allocator has a free block \<open>p\<close> and the table with the file's new entry fits
  in a block, \<open>write_file(name, b'', 0)\<close> returns \<open>True\<close>. The file's block list becomes \<open>[p]\<close>, its
  size (and every other field) stays as it was, so a size of 0 stays 0; block \<open>p\<close> was free
  and is used afterwards, and the bitmap changed at byte \<open>p\<close> (and byte 1, which every
  save of the table sets) only. A zero-length write is not a no-op.
\<close>

theorem empty_write_allocates:
  assumes ok: "fs_ok fs" and ino: "map_of (inodes fs) name = Some inode"
    and e: "inode_blocks inode = []"
    and free: "get_free_block (disk fs) = Inr (Some p)"
    and fit: "length (dumps (AList.update name (inode\<lparr>inode_blocks := [p]\<rparr>) (inodes fs)))
                \<le> block_size (disk fs)"
  shows "\<exists>fs' bitmap. write_file dumps name [] 0 fs = (Inr True, fs') \<and>
           inodes fs' = AList.update name (inode\<lparr>inode_blocks := [p]\<rparr>) (inodes fs) \<and>
           map_of (inodes fs') name = Some (inode\<lparr>inode_blocks := [p]\<rparr>) \<and>
           inode_size (inode\<lparr>inode_blocks := [p]\<rparr>) = inode_size inode \<and>
           is_block_used (disk fs) p = Inr False \<and>
           is_block_used (disk fs') p = Inr True \<and>
           read_block (disk fs) 0 = Inr bitmap \<and>
           read_block (disk fs') 0 = Inr (bitmap[nat p := 1, 1 := 1])"
proof -
  let ?d = "disk fs"
  let ?B = "block_size ?d"
  have dok: "disk_ok ?d" and itb: "inode_table_block fs = 1"
    using ok by (simp_all add: fs_ok_def)
  have B: "0 < ?B" using dok by (simp add: disk_ok_def)
  from get_free_block_Some [OF dok free]
  have p: "1 \<le> p" "p < int (total_blocks ?d)" "nat p < ?B" "block_at ?d 0 ! nat p = 0"
    by simp_all
  have tb: "1 < total_blocks ?d" "0 < total_blocks ?d" and B1: "1 < ?B"
    using p by simp_all
  obtain d1 where mk: "mark_block_used ?d p = Inr d1"
    using mark_block_used_ok [OF dok tb(2) p(3)] p(1) by auto
  from mark_block_used_effect [OF dok _ mk] p(1)
  have ok1: "disk_ok d1" and bm1: "block_at d1 0 = (block_at ?d 0)[nat p := 1]"
    by simp_all
  have g1: "block_size d1 = ?B" "total_blocks d1 = total_blocks ?d"
    using mark_block_used_geometry [OF mk] by (simp_all add: same_geometry_def)
  have calc: "calculate_blocks_needed fs 0 (length ([] :: byte list)) = Inr [0]"
    using B by (simp add: calculate_blocks_needed_def)
  have ens: "ensure_blocks_allocated inode [0] fs = (Inr [(0, p)], fs\<lparr>disk := d1\<rparr>)"
    using e free mk by (simp add: ensure_blocks_allocated_def allocate_new_block_def)
  have wd: "write_data_to_blocks [] 0 [(0, p)] (fs\<lparr>disk := d1\<rparr>) = (Inr (), fs\<lparr>disk := d1\<rparr>)"
    by (simp add: write_data_to_blocks_def write_loop.simps)
  let ?tbl = "AList.update name (inode\<lparr>inode_blocks := [p]\<rparr>) (inodes fs)"
  let ?fsc = "fs\<lparr>disk := d1, inodes := ?tbl\<rparr>"
  have up: "update_inode dumps name inode 0 (length ([] :: byte list)) [(0, p)] (fs\<lparr>disk := d1\<rparr>) =
      save_inode_table dumps ?fsc"
    by (simp add: update_inode_def)
  have okc: "disk_ok (disk ?fsc)" and itbc: "inode_table_block ?fsc = 1"
    using ok1 itb by simp_all
  obtain fs' where sv: "save_inode_table dumps ?fsc = (Inr (), fs')"
    using save_inode_table_ok [OF okc itbc, of dumps] g1 tb B1 fit by auto
  from save_inode_table_effect [OF okc itbc sv]
  have e': "inodes fs' = ?tbl" "disk_ok (disk fs')" "same_geometry d1 (disk fs')"
    and bm': "block_at (disk fs') 0 = (block_at d1 0)[1 := 1]"
    by simp_all
  have g': "block_size (disk fs') = ?B" "total_blocks (disk fs') = total_blocks ?d"
    using e'(3) g1 by (simp_all add: same_geometry_def)
  have wf: "write_file dumps name [] 0 fs = (Inr True, fs')"
    using ino calc ens wd up sv
    by (simp add: write_file_def write_file_body_def get_inode_def)
  have lb: "length (block_at ?d 0) = ?B"
    using length_block_at [OF dok tb(2)] .
  have r0: "read_block ?d 0 = Inr (block_at ?d 0)"
    using read_block_eq [of 0 ?d] tb by simp
  have r0': "read_block (disk fs') 0 = Inr ((block_at ?d 0)[nat p := 1, 1 := 1])"
    using read_block_eq [of 0 "disk fs'"] tb g' bm' bm1 by simp
  have u0: "is_block_used ?d p = Inr False"
    using mark_block_eq(3) [OF dok tb(2) p(3)] p by simp
  have "is_block_used (disk fs') (int (nat p)) = Inr (block_at (disk fs') 0 ! nat p = 1)"
    using e'(2) g' tb p(3) by (intro mark_block_eq(3)) simp_all
  then have u1: "is_block_used (disk fs') p = Inr True"
    using p lb B1 bm' bm1 by (simp add: nth_list_update)
  show ?thesis
    using wf e'(1) r0 r0' u0 u1 by (simp add: update_conv')
qed

theorem empty_write_allocates_witness:
  "fs_ok empty_file_fs \<and> map_of (inodes empty_file_fs) ''a'' = Some (new_Inode ''a'' 0) \<and>
   inode_blocks (new_Inode ''a'' 0) = [] \<and> get_free_block (disk empty_file_fs) = Inr (Some 2) \<and>
   (\<exists>fs'. write_file example_dumps ''a'' [] 0 empty_file_fs = (Inr True, fs') \<and>
      map_of (inodes fs') ''a'' = Some ((new_Inode ''a'' 0)\<lparr>inode_blocks := [2]\<rparr>) \<and>
      inode_size ((new_Inode ''a'' 0)\<lparr>inode_blocks := [2]\<rparr>) = 0 \<and>
      is_block_used (disk empty_file_fs) 2 = Inr False \<and>
      is_block_used (disk fs') 2 = Inr True \<and>
      read_block (disk empty_file_fs) 0 = Inr [1, 1, 0, 0, 0, 0, 0, 0] \<and>
      read_block (disk fs') 0 = Inr [1, 1, 1, 0, 0, 0, 0, 0])"
proof -
  have h: "fs_ok empty_file_fs" "map_of (inodes empty_file_fs) ''a'' = Some (new_Inode ''a'' 0)"
    "inode_blocks (new_Inode ''a'' 0) = []"
    by code_simp+
  have f: "get_free_block (disk empty_file_fs) = Inr (Some 2)"
    by code_simp
  have fit: "length (example_dumps (AList.update ''a'' ((new_Inode ''a'' 0)\<lparr>inode_blocks := [2]\<rparr>)
                (inodes empty_file_fs))) \<le> block_size (disk empty_file_fs)"
    by code_simp
  have r: "read_block (disk empty_file_fs) 0 = Inr [1, 1, 0, 0, 0, 0, 0, 0]"
    by code_simp
  from empty_write_allocates [where dumps = example_dumps, OF h f fit] r h f show ?thesis
    by (auto simp: new_Inode_def)
qed

text \<open>
  Claim C9 (as stated) fails: not every file with an empty block list gets \<open>True\<close>. On
  the four-block engine whose data blocks are both taken, the zero-length write to the
  empty file \<open>a\<close> still asks for one block and \<open>_allocate_new_block\<close> raises; on the
  engine whose table does not fit in a block, the block is allocated and the save of the
  table raises. Both engines are well-formed.
\<close>

theorem empty_write_can_raise:
  "fs_ok tiny_full_fs \<and> map_of (inodes tiny_full_fs) ''a'' = Some (new_Inode ''a'' 0) \<and>
   fs_ok crowded_fs \<and> map_of (inodes crowded_fs) ''a'' = Some (new_Inode ''a'' 0) \<and>
   inode_blocks (new_Inode ''a'' 0) = [] \<and>
   fst (write_file example_dumps ''a'' [] 0 tiny_full_fs) = Inl (NameError ''DiskFullError'') \<and>
   fst (write_file crowded_dumps ''a'' [] 0 crowded_fs) = Inl (OversizedWrite 18)"
proof -
  have "fs_ok tiny_full_fs" by code_simp
  moreover have "map_of (inodes tiny_full_fs) ''a'' = Some (new_Inode ''a'' 0)" by code_simp
  moreover have "fs_ok crowded_fs" by code_simp
  moreover have "map_of (inodes crowded_fs) ''a'' = Some (new_Inode ''a'' 0)" by code_simp
  moreover have "inode_blocks (new_Inode ''a'' 0) = []" by code_simp
  moreover have "fst (write_file example_dumps ''a'' [] 0 tiny_full_fs) =
      Inl (NameError ''DiskFullError'')" by code_simp
  moreover have "fst (write_file crowded_dumps ''a'' [] 0 crowded_fs) = Inl (OversizedWrite 18)"
    by code_simp
  ultimately show ?thesis by simp
qed

section \<open>A write on a full device\<close>

lemma filter_remove_one:
  "distinct ks \<Longrightarrow> x \<in> set ks \<Longrightarrow> P x \<Longrightarrow>
     length (filter (\<lambda>k. P k \<and> k \<noteq> x) ks) + 1 = length (filter P ks)"
proof (induction ks)
  case Nil
  then show ?case by simp
next
  case (Cons k ks)
  show ?case
  proof (cases "k = x")
    case True
    then have "x \<notin> set ks" using Cons.prems(1) by simp
    then have "filter (\<lambda>k. P k \<and> k \<noteq> x) ks = filter P ks"
      by (intro filter_cong) auto
    then show ?thesis using True Cons.prems(3) by simp
  next
    case False
    then show ?thesis using Cons by simp
  qed
qed

lemma first_free_error: "first_free bm ks = Inl e \<Longrightarrow> e = IndexError"
  by (induction ks) (auto simp: py_getitem_def split: if_splits)

lemma allocate_new_block_error:
  "allocate_new_block fs = Inl e \<Longrightarrow> e \<noteq> FileNotFoundError msg"
  by (auto simp: allocate_new_block_def get_free_block_def read_block_def
      split: sum.splits option.splits if_splits dest: first_free_error)

lemma free_block_count_mark:
  assumes ok: "disk_ok (disk fs)" and a: "allocate_new_block fs = Inr p"
    and mk: "mark_block_used (disk fs) p = Inr d1"
  shows "free_block_count d1 + 1 = free_block_count (disk fs)"
proof -
  let ?d = "disk fs"
  let ?P = "\<lambda>k. k < block_size ?d \<and> block_at ?d 0 ! k = 0"
  from allocate_step [OF ok a mk]
  have p: "1 \<le> p" "p < int (total_blocks ?d)" "nat p < block_size ?d" "block_at ?d 0 ! nat p = 0"
    and bm1: "block_at d1 0 = (block_at ?d 0)[nat p := 1]"
    by simp_all
  have g: "block_size d1 = block_size ?d" "total_blocks d1 = total_blocks ?d"
    using mark_block_used_geometry [OF mk] by (simp_all add: same_geometry_def)
  have tb: "0 < total_blocks ?d" using p by simp
  have lb: "length (block_at ?d 0) = block_size ?d"
    using length_block_at [OF ok tb] .
  have "(k < block_size d1 \<and> block_at d1 0 ! k = 0) \<longleftrightarrow> (?P k \<and> k \<noteq> nat p)" for k
    using bm1 g lb p(3) by (auto simp: nth_list_update)
  then have "free_block_count d1 = length (filter (\<lambda>k. ?P k \<and> k \<noteq> nat p) [1 ..< total_blocks ?d])"
    by (simp add: free_block_count_def g)
  moreover have "nat p \<in> set [1 ..< total_blocks ?d]" using p by auto
  ultimately show ?thesis
    using filter_remove_one [of "[1 ..< total_blocks ?d]" "nat p" ?P] p
    by (simp add: free_block_count_def)
qed

lemma allocate_missing_exhausted:
  assumes "disk_ok (disk fs)" and "distinct ls"
    and "free_block_count (disk fs) < length (filter (\<lambda>l. map_of m l = None) ls)"
  shows "\<exists>e fs'. allocate_missing fs m ls = (Inl e, fs') \<and> (\<forall>msg. e \<noteq> FileNotFoundError msg)"
  using assms
proof (induction fs m ls rule: allocate_missing.induct)
  case (1 fs m)
  then show ?case by simp
next
  case (2 fs m l ls)
  show ?case
  proof (cases "map_of m l \<noteq> None")
    case True
    with "2.prems" have "distinct ls"
      "free_block_count (disk fs) < length (filter (\<lambda>l. map_of m l = None) ls)"
      by simp_all
    from "2.IH"(1) [OF True "2.prems"(1) this] True show ?thesis by simp
  next
    case False
    then have absent: "map_of m l = None" by simp
    show ?thesis
    proof (cases "allocate_new_block fs")
      case (Inl e)
      with False allocate_new_block_error [OF Inl] show ?thesis by simp
    next
      case nb: (Inr p)
      from nb obtain "get_free_block (disk fs) = Inr (Some p)"
        by (auto simp: allocate_new_block_def split: sum.splits option.splits)
      from get_free_block_Some [OF "2.prems"(1) this]
      have p: "1 \<le> p" "p < int (total_blocks (disk fs))" "nat p < block_size (disk fs)"
        by simp_all
      then obtain d1 where mk: "mark_block_used (disk fs) p = Inr d1"
        using mark_block_used_ok [OF "2.prems"(1), of "nat p"] by auto
      let ?fs1 = "fs\<lparr>disk := d1\<rparr>"
      let ?m1 = "AList.update l p m"
      have sel: "disk ?fs1 = d1" by simp
      have ok1: "disk_ok d1"
        using allocate_step [OF "2.prems"(1) nb mk] by simp
      have dl: "distinct ls" and nl: "l \<notin> set ls"
        using "2.prems"(2) by simp_all
      have m1: "?m1 = m @ [(l, p)]"
        using absent by (rule update_absent)
      have keys: "filter (\<lambda>x. map_of ?m1 x = None) ls = filter (\<lambda>x. map_of m x = None) ls"
        using nl by (intro filter_cong) (auto simp: m1 map_add_def split: option.splits)
      have "free_block_count d1 + 1 = free_block_count (disk fs)"
        using "2.prems"(1) nb mk by (rule free_block_count_mark)
      then have less: "free_block_count d1 < length (filter (\<lambda>x. map_of ?m1 x = None) ls)"
        using "2.prems"(3) absent keys by simp
      from "2.IH"(2) [OF False nb mk, unfolded sel, OF ok1 dl less] False nb mk
      show ?thesis by simp
    qed
  qed
qed

lemma map_of_enumerate_None:
  "map_of (zip [0 ..< length bs] bs) l = None \<longleftrightarrow> length bs \<le> l"
proof -
  have "map_of (zip [0 ..< length bs] bs) l = None \<longleftrightarrow> l \<notin> set [0 ..< length bs]"
    by (intro map_of_zip_is_None) simp
  then show ?thesis by auto
qed

text \<open>
  Claim C2 (as amended). On a well-formed device, when the write needs more new blocks
  (needed logical blocks beyond the inode's block list) than the bitmap has free blocks,
  \<open>write_file\<close> on an existing file returns neither \<open>True\<close> nor \<open>False\<close>: the exception
  raised in allocation escapes, since the \<open>except\<close> clause catches \<open>FileNotFoundError\<close>
  only.
\<close>

theorem disk_full_escapes:
  assumes ok: "disk_ok (disk fs)" and ino: "map_of (inodes fs) name = Some inode"
    and calc: "calculate_blocks_needed fs offset (length data) = Inr blocks_needed"
    and full: "free_block_count (disk fs)
                 < length (filter (\<lambda>l. length (inode_blocks inode) \<le> l) blocks_needed)"
  shows "\<exists>e fs'. write_file dumps name data offset fs = (Inl e, fs')"
proof -
  let ?m = "zip [0 ..< length (inode_blocks inode)] (inode_blocks inode)"
  have d: "distinct blocks_needed"
    using calc by (auto simp: calculate_blocks_needed_def split: if_splits)
  have "free_block_count (disk fs) < length (filter (\<lambda>l. map_of ?m l = None) blocks_needed)"
    using full by (simp add: map_of_enumerate_None)
  from allocate_missing_exhausted [OF ok d this] obtain e fs'
    where a: "allocate_missing fs ?m blocks_needed = (Inl e, fs')"
      and e: "\<And>msg. e \<noteq> FileNotFoundError msg"
    by blast
  have "write_file_body dumps name data offset fs = (Inl e, fs')"
    using ino calc a by (simp add: write_file_body_def get_inode_def ensure_blocks_allocated_def)
  then have "write_file dumps name data offset fs = (Inl e, fs')"
    using e by (cases e) (auto simp: write_file_def)
  then show ?thesis by blast
qed

lemma full_disk_no_free_block: "get_free_block full_disk = Inr None"
proof -
  have r: "read_block full_disk 0 = Inr (replicate 256 1 @ replicate 3840 0)"
    by (simp add: full_disk_def read_block_def file_read_def)
  have "first_free (replicate 256 1 @ replicate 3840 0) [1 ..< 256] = Inr None"
    unfolding first_free_None by (simp add: nth_append)
  moreover have "total_blocks full_disk = 256"
    by (simp add: full_disk_def)
  ultimately show ?thesis
    by (simp add: get_free_block_def r)
qed

text \<open>
  Claim C2 (as stated) fails: on the full device, \<open>write_file\<close> of one byte to the
  existing empty file \<open>a\<close> does not return \<open>False\<close>. \<open>_allocate_new_block\<close> evaluates
  \<open>raise DiskFullError(...)\<close>, and the exception leaves \<open>write_file\<close>.
\<close>

theorem disk_full_not_false:
  "write_file example_dumps ''a'' [1] 0 full_fs = (Inl (NameError ''DiskFullError''), full_fs)"
proof -
  have i: "get_inode full_fs ''a'' = Inr (new_Inode ''a'' 0)"
    by (simp add: get_inode_def full_fs_def)
  have c: "calculate_blocks_needed full_fs 0 (length [1 :: byte]) = Inr [0, 1]"
    by (simp add: calculate_blocks_needed_def full_fs_def full_disk_def upt_conv_Cons)
  have a: "allocate_new_block full_fs = Inl (NameError ''DiskFullError'')"
    using full_disk_no_free_block by (simp add: allocate_new_block_def full_fs_def)
  have e: "ensure_blocks_allocated (new_Inode ''a'' 0) [0, 1] full_fs =
             (Inl (NameError ''DiskFullError''), full_fs)"
    using a by (simp add: ensure_blocks_allocated_def new_Inode_def)
  show ?thesis
    using i c e by (simp add: write_file_def write_file_body_def)
qed

theorem disk_full_escapes_witness:
  "disk_ok (disk tiny_full_fs) \<and>
   map_of (inodes tiny_full_fs) ''a'' = Some (new_Inode ''a'' 0) \<and>
   calculate_blocks_needed tiny_full_fs 0 (length [7 :: byte]) = Inr [0, 1] \<and>
   free_block_count (disk tiny_full_fs)
     < length (filter (\<lambda>l. length (inode_blocks (new_Inode ''a'' 0)) \<le> l) [0, 1]) \<and>
   (\<exists>e fs'. write_file example_dumps ''a'' [7] 0 tiny_full_fs = (Inl e, fs'))"
proof -
  have h1: "disk_ok (disk tiny_full_fs)"
    by code_simp
  have h2: "map_of (inodes tiny_full_fs) ''a'' = Some (new_Inode ''a'' 0)"
    by code_simp
  have h3: "calculate_blocks_needed tiny_full_fs 0 (length [7 :: byte]) = Inr [0, 1]"
    by code_simp
  have h4: "free_block_count (disk tiny_full_fs)
     < length (filter (\<lambda>l. length (inode_blocks (new_Inode ''a'' 0)) \<le> l) [0, 1])"
    by code_simp
  from disk_full_escapes [OF h1 h2 h3 h4, of example_dumps] h1 h2 h3 h4
  show ?thesis by blast
qed

section \<open>The blocks and the size a write leaves\<close>

text \<open>What a successful write at any offset leaves in the entry of a block-less file.\<close>

lemma write_fresh_inode_meta:
  assumes ok: "fs_ok fs" and ino: "map_of (inodes fs) name = Some inode"
    and e: "inode_blocks inode = []"
    and wr: "write_file dumps name D offset fs = (Inr True, fs')"
  shows "\<exists>ps. length ps = (offset + length D + block_size (disk fs) - 1) div block_size (disk fs)
                         + 1 - offset div block_size (disk fs) \<and>
           distinct ps \<and>
           map_of (inodes fs') name =
             Some (inode\<lparr>inode_blocks := ps,
                         inode_size := max (inode_size inode) (offset + length D)\<rparr>)"
proof -
  let ?B = "block_size (disk fs)"
  let ?a = "offset div ?B"
  let ?E = "(offset + length D + ?B - 1) div ?B"
  have dok: "disk_ok (disk fs)" and itb: "inode_table_block fs = 1"
    using ok by (simp_all add: fs_ok_def)
  have B: "0 < ?B" using dok by (simp add: disk_ok_def)
  from write_file_True [OF wr] ino obtain needed m fsa fsb where
    c: "calculate_blocks_needed fs offset (length D) = Inr needed"
    and en: "ensure_blocks_allocated inode needed fs = (Inr m, fsa)"
    and wd: "write_data_to_blocks D offset m fsa = (Inr (), fsb)"
    and up: "update_inode dumps name inode offset (length D) m fsb = (Inr (), fs')"
    by (auto simp: get_inode_def)
  have needed: "needed = [?a ..< ?E + 1]"
    using c B by (simp add: calculate_blocks_needed_def)
  define ps where "ps = map snd m"
  from ensure_from_empty [OF dok e en [unfolded needed]]
  have keys: "map fst m = [?a ..< ?E + 1]" and dist: "distinct ps" and oka: "disk_ok (disk fsa)"
    unfolding ps_def by blast+
  have lps: "length ps = ?E + 1 - ?a"
    using keys unfolding ps_def by (metis length_map length_upt)
  from en have "allocate_missing fs (zip [0 ..< length (inode_blocks inode)] (inode_blocks inode))
      needed = (Inr m, fsa)"
    by (simp add: ensure_blocks_allocated_def)
  from allocate_missing_frame [OF this]
  have fra: "inodes fsa = inodes fs" "inode_table_block fsa = 1"
    using itb by simp_all
  from wd obtain d' where wl: "write_loop (disk fsa) m D offset 0 = (Inr (), d')"
    and fsb: "fsb = fsa\<lparr>disk := d'\<rparr>"
    by (auto simp: write_data_to_blocks_def split: prod.splits)
  let ?inode' = "inode\<lparr>inode_blocks := map (\<lambda>i. the (map_of m i)) (sort (map fst m)),
                        inode_size := max (inode_size inode) (offset + length D)\<rparr>"
  let ?fsc = "fsb\<lparr>inodes := AList.update name ?inode' (inodes fsb)\<rparr>"
  have sv: "save_inode_table dumps ?fsc = (Inr (), fs')"
    using up by (simp add: update_inode_def)
  have "inodes fs' = inodes ?fsc"
    using sv by (auto simp: save_inode_table_def split: sum.splits)
  moreover have "map (\<lambda>i. the (map_of m i)) (sort (map fst m)) = ps"
    unfolding ps_def by (rule blocks_of_sorted_mapping) (simp_all only: keys sorted_upt distinct_upt)
  ultimately have "map_of (inodes fs') name =
             Some (inode\<lparr>inode_blocks := ps,
                         inode_size := max (inode_size inode) (offset + length D)\<rparr>)"
    by (simp add: update_conv')
  with lps dist show ?thesis by blast
qed

text \<open>
  With the default block size of 4096, one byte at offset 0 needs the logical blocks 0
  and 1, and one byte at offset 8192 the logical blocks 2 and 3.
\<close>

lemma default_blocks_needed:
  "calculate_blocks_needed fresh_fs 0 1 = Inr [0, 1]"
  "calculate_blocks_needed fresh_fs 8192 1 = Inr [2, 3]"
  by (simp_all add: calculate_blocks_needed_def fresh_fs_def fresh_disk_def upt_conv_Cons)

text \<open>
  Claim C3 (what the code does). \<open>_calculate_blocks_needed\<close> returns
  \<open>range(start_block, end_block + 1)\<close> with \<open>end_block\<close> already the ceiling: the closed
  range. A successful write of \<open>D\<close> at offset 0 to a file without blocks leaves it with
  \<open>ceil(len(D) / B) + 1\<close> distinct blocks, one more than the half-open range of the
  claim has: logical block \<open>ceil(len(D) / B)\<close>, which no byte of the write lies in, is
  allocated too.
\<close>

theorem write_allocates_closed_range:
  assumes "fs_ok fs" and "map_of (inodes fs) name = Some inode"
    and "inode_blocks inode = []"
    and "write_file dumps name D 0 fs = (Inr True, fs')"
  shows "\<exists>inode'. map_of (inodes fs') name = Some inode' \<and> distinct (inode_blocks inode') \<and>
           length (inode_blocks inode') =
             (length D + block_size (disk fs) - 1) div block_size (disk fs) + 1"
  using write_fresh_inode_meta [OF assms] by auto

theorem write_allocates_closed_range_witness:
  "fs_ok empty_file_fs \<and> map_of (inodes empty_file_fs) ''a'' = Some (new_Inode ''a'' 0) \<and>
   inode_blocks (new_Inode ''a'' 0) = [] \<and>
   fst (write_file example_dumps ''a'' [7] 0 empty_file_fs) = Inr True \<and>
   (\<exists>inode'. map_of (inodes (snd (write_file example_dumps ''a'' [7] 0 empty_file_fs))) ''a''
        = Some inode' \<and>
      distinct (inode_blocks inode') \<and> length (inode_blocks inode') = 2)"
proof -
  let ?w = "write_file example_dumps ''a'' [7] 0 empty_file_fs"
  have h: "fs_ok empty_file_fs" "map_of (inodes empty_file_fs) ''a'' = Some (new_Inode ''a'' 0)"
    "inode_blocks (new_Inode ''a'' 0) = []"
    by code_simp+
  have t: "fst ?w = Inr True" by code_simp
  then have w: "?w = (Inr True, snd ?w)" by (simp add: prod_eq_iff)
  have b: "block_size (disk empty_file_fs) = 8"
    by code_simp
  from write_allocates_closed_range [OF h w] h t show ?thesis
    by (simp add: b numeral_2_eq_2)
qed

text \<open>
  Claim C4 (what the code does). \<open>_update_inode\<close> stores the values of the mapping as a
  dense list, whatever logical blocks they belong to. A successful write at an offset of
  two blocks or more to a file without blocks leaves \<open>inode.size\<close> at least
  \<open>offset + len(data)\<close> but only the blocks of the written range in \<open>inode.blocks\<close>:
  \<open>len(inode.blocks) < ceil(inode.size / B)\<close>.
\<close>

theorem write_past_end_breaks_invariant:
  assumes ok: "fs_ok fs" and ino: "map_of (inodes fs) name = Some inode"
    and e: "inode_blocks inode = []"
    and off: "2 * block_size (disk fs) \<le> offset"
    and wr: "write_file dumps name D offset fs = (Inr True, fs')"
  shows "\<exists>inode'. map_of (inodes fs') name = Some inode' \<and>
           length (inode_blocks inode') <
             (inode_size inode' + block_size (disk fs) - 1) div block_size (disk fs)"
proof -
  let ?B = "block_size (disk fs)"
  let ?E = "(offset + length D + ?B - 1) div ?B"
  have B: "0 < ?B" using ok by (simp add: fs_ok_def disk_ok_def)
  from write_fresh_inode_meta [OF ok ino e wr] obtain ps where
    lps: "length ps = ?E + 1 - offset div ?B"
    and tbl: "map_of (inodes fs') name =
             Some (inode\<lparr>inode_blocks := ps,
                         inode_size := max (inode_size inode) (offset + length D)\<rparr>)"
    by blast
  have "2 * ?B div ?B \<le> offset div ?B" using off by (rule div_le_mono)
  then have a: "2 \<le> offset div ?B" using B by simp
  have "offset div ?B \<le> ?E" using B by (intro div_le_mono) linarith
  with a lps have l: "length ps < ?E" by linarith
  have "?E \<le> (max (inode_size inode) (offset + length D) + ?B - 1) div ?B"
    by (intro div_le_mono) linarith
  with l tbl show ?thesis by simp
qed

theorem write_past_end_breaks_invariant_witness:
  "fs_ok empty_file_fs \<and> map_of (inodes empty_file_fs) ''a'' = Some (new_Inode ''a'' 0) \<and>
   inode_blocks (new_Inode ''a'' 0) = [] \<and> 2 * block_size (disk empty_file_fs) \<le> 16 \<and>
   fst (write_file example_dumps ''a'' [7] 16 empty_file_fs) = Inr True \<and>
   (\<exists>inode'. map_of (inodes (snd (write_file example_dumps ''a'' [7] 16 empty_file_fs))) ''a''
        = Some inode' \<and>
      length (inode_blocks inode') < (inode_size inode' + 8 - 1) div 8)"
proof -
  let ?w = "write_file example_dumps ''a'' [7] 16 empty_file_fs"
  have h: "fs_ok empty_file_fs" "map_of (inodes empty_file_fs) ''a'' = Some (new_Inode ''a'' 0)"
    "inode_blocks (new_Inode ''a'' 0) = []" "2 * block_size (disk empty_file_fs) \<le> 16"
    by code_simp+
  have t: "fst ?w = Inr True" by code_simp
  then have w: "?w = (Inr True, snd ?w)" by (simp add: prod_eq_iff)
  have b: "block_size (disk empty_file_fs) = 8"
    by code_simp
  from write_past_end_breaks_invariant [OF h w] h t show ?thesis
    by (simp add: b)
qed

section \<open>Well-formed engines in use\<close>

lemma VirtualDisk_init_ok:
  assumes i: "VirtualDisk_init existing T B = Inr d"
    and len: "case existing of None \<Rightarrow> True | Some content \<Rightarrow> length content = T"
  shows "disk_ok d"
proof -
  let ?d0 = "\<lparr>disk_file = (case existing of Some content \<Rightarrow> content | None \<Rightarrow> replicate T 0),
              total_size_bytes = T, block_size = B, total_blocks = T div B, bitmap_blocks = 1\<rparr>"
  have B: "0 < B" using i by (auto simp: VirtualDisk_init_def split: if_splits)
  have ok0: "disk_ok ?d0"
    using B len by (auto simp: disk_ok_def split: option.splits)
  have "write_block ?d0 0 ((replicate B 0)[0 := 1]) = Inr d"
    using i VirtualDisk_init_eq [OF B, of existing T] by simp
  from write_block_effect(1) [OF ok0 this] show ?thesis .
qed

text \<open>
  The engine that \<open>FileSystem(disk_path)\<close> returns over a new file, or over a file of
  1 MiB, is well-formed: the theorems about well-formed engines apply to it.
\<close>

theorem FileSystem_init_ok:
  assumes i: "FileSystem_init loads dumps existing = Inr fs"
    and len: "case existing of None \<Rightarrow> True | Some content \<Rightarrow> length content = 1024 * 1024"
  shows "fs_ok fs"
proof -
  from i obtain d where d: "VirtualDisk_init existing (1024 * 1024) 4096 = Inr d"
    by (cases "VirtualDisk_init existing (1024 * 1024) 4096") (simp_all add: FileSystem_init_def)
  let ?fs0 = "\<lparr>disk = d, inode_table_block = 1, inodes = []\<rparr>"
  have ok0: "disk_ok (disk ?fs0)" and itb0: "inode_table_block ?fs0 = 1"
    using VirtualDisk_init_ok [OF d len] by simp_all
  obtain u where l: "load_inode_table loads dumps ?fs0 = (Inr u, fs)"
    using i unfolding FileSystem_init_def d
    by (auto split: prod.splits sum.splits)
  have sv: "fs_ok fs" if "save_inode_table dumps ?fs0 = (Inr u, fs)"
    using save_inode_table_effect [OF ok0 itb0 that] by (simp add: fs_ok_def)
  show ?thesis
  proof (cases "read_block d 1")
    case (Inl e)
    with l sv show ?thesis by (simp add: load_inode_table_def)
  next
    case (Inr data)
    show ?thesis
    proof (cases "rstrip0 data = []")
      case True
      with l Inr ok0 show ?thesis by (auto simp: load_inode_table_def fs_ok_def)
    next
      case False
      with l Inr ok0 sv show ?thesis
        by (cases "loads (rstrip0 data)") (auto simp: load_inode_table_def fs_ok_def)
    qed
  qed
qed

theorem FileSystem_init_ok_witness:
  "FileSystem_init (\<lambda>bs. Inl DecodeError) example_dumps None = Inr fresh_fs \<and> fs_ok fresh_fs"
proof -
  have i: "FileSystem_init (\<lambda>bs. Inl DecodeError) example_dumps None = Inr fresh_fs"
    by (rule FileSystem_init_fresh)
  from FileSystem_init_ok [OF i] i show ?thesis by simp
qed

lemma filter_ge_upt: "a \<le> n \<Longrightarrow> filter (\<lambda>l. n \<le> l) [a ..< b] = [n ..< b]"
proof (induction b)
  case 0
  then show ?case by simp
next
  case (Suc b)
  then show ?case by (cases "a \<le> b") auto
qed

lemma upt_append_max: "[0 ..< n] @ [n ..< b] = [0 ..< max n b]"
proof (cases "n \<le> b")
  case True
  then show ?thesis
    using upt_add_eq_append [of 0 n "b - n"] by (simp add: max_def)
next
  case False
  then show ?thesis by (simp add: max_def)
qed

text \<open>
  A successful write that starts within or right after the blocks the file has (no
  logical block is skipped) keeps the invariant \<open>ceil(size / B) \<le> len(blocks)\<close>: the
  old blocks stay in place, new ones are appended up to logical block
  \<open>ceil((offset + len(data)) / B)\<close>, and the size is the maximum of the old size and the
  end of the write.
\<close>

theorem contiguous_write_keeps_invariant:
  assumes ok: "fs_ok fs" and ino: "map_of (inodes fs) name = Some inode"
    and inv: "(inode_size inode + block_size (disk fs) - 1) div block_size (disk fs)
                \<le> length (inode_blocks inode)"
    and nogap: "offset div block_size (disk fs) \<le> length (inode_blocks inode)"
    and wr: "write_file dumps name D offset fs = (Inr True, fs')"
  shows "\<exists>inode' new_blocks. map_of (inodes fs') name = Some inode' \<and>
           inode_size inode' = max (inode_size inode) (offset + length D) \<and>
           inode_blocks inode' = inode_blocks inode @ new_blocks \<and>
           length (inode_blocks inode') =
             max (length (inode_blocks inode))
                 ((offset + length D + block_size (disk fs) - 1) div block_size (disk fs) + 1) \<and>
           (inode_size inode' + block_size (disk fs) - 1) div block_size (disk fs)
             \<le> length (inode_blocks inode')"
proof -
  let ?B = "block_size (disk fs)"
  let ?a = "offset div ?B"
  let ?E = "(offset + length D + ?B - 1) div ?B"
  let ?bs = "inode_blocks inode"
  let ?m0 = "zip [0 ..< length ?bs] ?bs"
  have dok: "disk_ok (disk fs)" and itb: "inode_table_block fs = 1"
    using ok by (simp_all add: fs_ok_def)
  have B: "0 < ?B" using dok by (simp add: disk_ok_def)
  from write_file_True [OF wr] ino obtain needed m fsa fsb where
    c: "calculate_blocks_needed fs offset (length D) = Inr needed"
    and en: "ensure_blocks_allocated inode needed fs = (Inr m, fsa)"
    and wd: "write_data_to_blocks D offset m fsa = (Inr (), fsb)"
    and up: "update_inode dumps name inode offset (length D) m fsb = (Inr (), fs')"
    by (auto simp: get_inode_def)
  have needed: "needed = [?a ..< ?E + 1]"
    using c B by (simp add: calculate_blocks_needed_def)
  have am: "allocate_missing fs ?m0 [?a ..< ?E + 1] = (Inr m, fsa)"
    using en needed by (simp add: ensure_blocks_allocated_def)
  from allocate_missing_spec [OF am dok distinct_upt] obtain new where
    m: "m = ?m0 @ new"
    and nk: "map fst new = filter (\<lambda>l. map_of ?m0 l = None) [?a ..< ?E + 1]"
    by blast
  have "map fst new = [length ?bs ..< ?E + 1]"
    using nk nogap by (simp only: map_of_enumerate_None filter_ge_upt)
  then have keys: "map fst m = [0 ..< max (length ?bs) (?E + 1)]"
    using m upt_append_max [of "length ?bs" "?E + 1"] by simp
  have snd0: "map snd ?m0 = ?bs" by simp
  from allocate_missing_frame [OF am]
  have fra: "inodes fsa = inodes fs" by simp
  from wd have fsb: "inodes fsb = inodes fsa"
    by (auto simp: write_data_to_blocks_def split: prod.splits)
  let ?inode' = "inode\<lparr>inode_blocks := map (\<lambda>i. the (map_of m i)) (sort (map fst m)),
                        inode_size := max (inode_size inode) (offset + length D)\<rparr>"
  let ?fsc = "fsb\<lparr>inodes := AList.update name ?inode' (inodes fsb)\<rparr>"
  have sv: "save_inode_table dumps ?fsc = (Inr (), fs')"
    using up by (simp add: update_inode_def)
  have tbl: "inodes fs' = inodes ?fsc"
    using sv by (auto simp: save_inode_table_def split: sum.splits)
  have blocks: "map (\<lambda>i. the (map_of m i)) (sort (map fst m)) = map snd m"
    by (rule blocks_of_sorted_mapping) (simp_all only: keys sorted_upt distinct_upt)
  have e1: "map_of (inodes fs') name = Some ?inode'"
    using tbl by (simp add: update_conv')
  have e2: "inode_blocks ?inode' = ?bs @ map snd new"
    using blocks m snd0 by simp
  have "length (map fst m) = max (length ?bs) (?E + 1)"
    by (simp only: keys length_upt diff_zero)
  then have lm: "length m = max (length ?bs) (?E + 1)"
    by simp
  have e3: "length (inode_blocks ?inode') = max (length ?bs) (?E + 1)"
    by (simp add: blocks lm)
  have "(max (inode_size inode) (offset + length D) + ?B - 1) div ?B
          \<le> max (length ?bs) (?E + 1)"
  proof (cases "inode_size inode \<le> offset + length D")
    case True
    then show ?thesis by (simp add: max_def)
  next
    case False
    then show ?thesis using inv by (simp add: max_def)
  qed
  then have e4: "(inode_size ?inode' + ?B - 1) div ?B \<le> length (inode_blocks ?inode')"
    using e3 by simp
  show ?thesis
    using e1 e2 e3 e4 by (intro exI [of _ ?inode'] exI [of _ "map snd new"]) simp
qed

theorem contiguous_write_keeps_invariant_witness:
  "fs_ok empty_file_fs \<and> map_of (inodes empty_file_fs) ''a'' = Some (new_Inode ''a'' 0) \<and>
   fst (write_file example_dumps ''a'' [1, 2, 3] 0 empty_file_fs) = Inr True \<and>
   (\<exists>inode'. map_of (inodes (snd (write_file example_dumps ''a'' [1, 2, 3] 0 empty_file_fs))) ''a''
        = Some inode' \<and>
      inode_size inode' = 3 \<and> length (inode_blocks inode') = 2)"
proof -
  let ?w = "write_file example_dumps ''a'' [1, 2, 3] 0 empty_file_fs"
  have h: "fs_ok empty_file_fs" "map_of (inodes empty_file_fs) ''a'' = Some (new_Inode ''a'' 0)"
    "(inode_size (new_Inode ''a'' 0) + block_size (disk empty_file_fs) - 1)
        div block_size (disk empty_file_fs) \<le> length (inode_blocks (new_Inode ''a'' 0))"
    "0 div block_size (disk empty_file_fs) \<le> length (inode_blocks (new_Inode ''a'' 0))"
    by code_simp+
  have t: "fst ?w = Inr True" by code_simp
  then have w: "?w = (Inr True, snd ?w)" by (simp add: prod_eq_iff)
  have b: "block_size (disk empty_file_fs) = 8" by code_simp
  from contiguous_write_keeps_invariant [OF h w] h t show ?thesis
    by (auto simp: b new_Inode_def)
qed
text \<open>
  \<open>create_file\<close> of a name that was just created returns \<open>False\<close> and changes nothing;
  the table holds exactly one entry of that name.
\<close>

theorem duplicate_create_refused:
  assumes ok: "fs_ok fs" and cr: "create_file dumps now name fs = (Inr True, fs1)"
  shows "create_file dumps now' name fs1 = (Inr False, fs1) \<and>
         length (filter (\<lambda>entry. fst entry = name) (inodes fs1)) = 1"
proof -
  from create_file_True [OF ok cr]
  have ino: "map_of (inodes fs1) name = Some (new_Inode name now)" by simp
  let ?fs = "fs\<lparr>inodes := AList.update name (new_Inode name now) (inodes fs)\<rparr>"
  from cr have absent: "map_of (inodes fs) name = None"
    and sv: "save_inode_table dumps ?fs = (Inr (), fs1)"
    by (auto simp: create_file_def split: if_splits prod.splits sum.splits)
  have "inodes fs1 = inodes ?fs"
    using sv by (auto simp: save_inode_table_def split: sum.splits)
  then have t: "inodes fs1 = inodes fs @ [(name, new_Inode name now)]"
    using update_absent [OF absent] by simp
  have "name \<notin> fst ` set (inodes fs)"
    using absent by (simp add: map_of_eq_None_iff)
  then have "filter (\<lambda>entry. fst entry = name) (inodes fs) = []"
    by (auto simp: filter_empty_conv)
  then have "length (filter (\<lambda>entry. fst entry = name) (inodes fs1)) = 1"
    using t by simp
  then show ?thesis
    using ino by (simp add: create_file_def)
qed

theorem duplicate_create_refused_witness:
  "fs_ok example_fs \<and>
   create_file example_dumps 0 ''a'' example_fs = (Inr True, empty_file_fs) \<and>
   create_file example_dumps 5 ''a'' empty_file_fs = (Inr False, empty_file_fs) \<and>
   length (filter (\<lambda>entry. fst entry = ''a'') (inodes empty_file_fs)) = 1"
proof -
  have ok: "fs_ok example_fs" by code_simp
  have "fst (create_file example_dumps 0 ''a'' example_fs) = Inr True" by code_simp
  then have c: "create_file example_dumps 0 ''a'' example_fs = (Inr True, empty_file_fs)"
    by (simp add: prod_eq_iff empty_file_fs_def)
  from duplicate_create_refused [OF ok c, of 5] ok c show ?thesis by simp
qed

end
